theory Spec2Isabelle
  imports Complex_Main "HOL-Library.Word"
begin

unbundle bit_operations_syntax

section \<open>The badge's LoRa stack: radio driver and MAC layer\<close>

text \<open>
  The development embeds \<^verbatim>\<open>firmware/lib/lora_hal.py\<close> (class \<^verbatim>\<open>LoRaRadio\<close>),
  \<^verbatim>\<open>firmware/lib/lora_mac.py\<close> (class \<^verbatim>\<open>LoRaMAC\<close>) and the constructor of
  \<^verbatim>\<open>MACConfig\<close> in \<^verbatim>\<open>firmware/lib/config.py\<close>.

  Conventions of the embedding:
  \<^item> Python integers are \<open>int\<close>; elements of \<^verbatim>\<open>bytes\<close> objects are \<open>8 word\<close>.
  \<^item> Python floats are read as the real numbers they denote, with exact arithmetic
    (\<^verbatim>\<open>int(x)\<close> truncates towards zero); rounding of float operations is outside the model.
  \<^item> \<^verbatim>\<open>time.ticks_ms()\<close> reads a millisecond counter that only \<^verbatim>\<open>time.sleep_ms\<close>
    advances; the wrap-around of the tick counter is outside the model, so
    \<^verbatim>\<open>time.ticks_diff(a, b)\<close> is \<open>a - b\<close>.
  \<^item> Everything the code reads from outside (the BUSY pin, the bytes clocked in over SPI,
    \<^verbatim>\<open>urandom\<close>) is an oracle indexed by the number of reads made so far; everything it
    writes to the chip is appended to a log of SPI transactions.
  \<^item> An exception is a value \<open>Inl e\<close>; the state reached when it was raised is returned
    with it, as the mutated objects outlive the exception.
  \<^item> Console output (\<^verbatim>\<open>print\<close>) is not modelled.
  \<^item> A leading underscore of a Python name is dropped.
\<close>

subsection \<open>The world outside the MAC object\<close>

type_synonym byte = "8 word"

text \<open>
  One SPI transaction: the bytes written while NSS is low (command byte first) and the
  number of bytes read back before NSS goes high again.
\<close>

datatype spi_txn = Txn (mosi_bytes: "byte list") (miso_len: nat)

datatype error = ValueError | IndexError

record world =
  clock :: int
  busy_pin :: "nat \<Rightarrow> bool"
  busy_reads :: nat
  miso :: "nat \<Rightarrow> nat \<Rightarrow> byte"
  spi_reads :: nat
  bus :: "spi_txn list"
  rx_buffer :: "byte list option"
  valid_header_detected :: bool
  entropy :: "nat \<Rightarrow> nat"
  draws :: nat
  coin :: "nat \<Rightarrow> real"
  flips :: nat
  inbox :: "(byte list \<times> int \<times> real) list"
  strict_bytes :: bool

text \<open>
  \<open>busy_pin w k\<close> is the value of the \<open>k\<close>-th sample of the BUSY pin, \<open>miso w k i\<close> the
  \<open>i\<close>-th byte of the \<open>k\<close>-th \<^verbatim>\<open>spi.read\<close>, \<open>entropy w k\<close> the raw value behind the \<open>k\<close>-th
  \<^verbatim>\<open>urandom.randint\<close> and \<open>coin w k\<close> the one behind the \<open>k\<close>-th \<^verbatim>\<open>urandom.random\<close>.
  \<open>rx_buffer\<close> and \<open>valid_header_detected\<close> are the two attributes of the \<^verbatim>\<open>LoRaRadio\<close>
  object that its methods assign. \<open>inbox\<close> collects the calls of the application's
  receive handler. \<open>strict_bytes\<close> selects what \<^verbatim>\<open>bytearray([..., n])\<close> does for an
  \<open>n\<close> outside \<open>0..255\<close>: CPython raises \<^verbatim>\<open>ValueError\<close> (\<open>True\<close>), MicroPython's array store
  keeps the low eight bits (\<open>False\<close>).
\<close>

definition ticks_ms :: "world \<Rightarrow> int" where
  "ticks_ms w = clock w"

definition ticks_diff :: "int \<Rightarrow> int \<Rightarrow> int" where
  "ticks_diff a b = a - b"

text \<open>\<^verbatim>\<open>time.sleep_ms(n)\<close>: a negative argument does not sleep.\<close>

definition sleep_ms :: "int \<Rightarrow> world \<Rightarrow> world" where
  "sleep_ms n w = w\<lparr>clock := clock w + max 0 n\<rparr>"

text \<open>\<^verbatim>\<open>urandom.randint(a, b)\<close>: a value of \<open>a..b\<close>, \<^verbatim>\<open>ValueError\<close> on an empty range.\<close>

definition randint :: "int \<Rightarrow> int \<Rightarrow> world \<Rightarrow> (error + int) \<times> world" where
  "randint a b w =
     (if a \<le> b
      then (Inr (a + int (entropy w (draws w)) mod (b - a + 1)), w\<lparr>draws := draws w + 1\<rparr>)
      else (Inl ValueError, w))"

text \<open>\<^verbatim>\<open>urandom.random()\<close>: a value of \<open>[0, 1)\<close>.\<close>

definition random :: "world \<Rightarrow> real \<times> world" where
  "random w = (frac (coin w (flips w)), w\<lparr>flips := flips w + 1\<rparr>)"

text \<open>\<^verbatim>\<open>int(x)\<close> of a float.\<close>

definition py_int :: "real \<Rightarrow> int" where
  "py_int x = (if 0 \<le> x then \<lfloor>x\<rfloor> else \<lceil>x\<rceil>)"

text \<open>\<^verbatim>\<open>xs[i]\<close>: an index below zero counts from the end; out of range is \<^verbatim>\<open>IndexError\<close>.\<close>

definition py_index :: "'a list \<Rightarrow> int \<Rightarrow> error + 'a" where
  "py_index xs i =
     (if 0 \<le> i \<and> i < int (length xs) then Inr (xs ! nat i)
      else if - int (length xs) \<le> i \<and> i < 0 then Inr (xs ! nat (int (length xs) + i))
      else Inl IndexError)"

text \<open>\<^verbatim>\<open>bytearray(xs)\<close> of a list of integers.\<close>

definition bytearray :: "bool \<Rightarrow> int list \<Rightarrow> error + byte list" where
  "bytearray strict xs =
     (if strict \<and> list_ex (\<lambda>x. x < 0 \<or> 255 < x) xs then Inl ValueError
      else Inr (map word_of_int xs))"

subsection \<open>\<^verbatim>\<open>lora_hal.py\<close>: class \<^verbatim>\<open>LoRaRadio\<close>\<close>

definition CMD_WRITE_BUFFER :: byte where "CMD_WRITE_BUFFER = 0x0E"
definition CMD_SET_TX :: byte where "CMD_SET_TX = 0x83"
definition CMD_SET_RX :: byte where "CMD_SET_RX = 0x82"
definition CMD_SET_CAD :: byte where "CMD_SET_CAD = 0xC5"
definition CMD_GET_IRQ_STATUS :: byte where "CMD_GET_IRQ_STATUS = 0x12"
definition CMD_CLEAR_IRQ_STATUS :: byte where "CMD_CLEAR_IRQ_STATUS = 0x02"
definition CMD_READ_BUFFER :: byte where "CMD_READ_BUFFER = 0x1E"
definition CMD_GET_RX_BUFFER_STATUS :: byte where "CMD_GET_RX_BUFFER_STATUS = 0x13"

definition IRQ_TX_DONE :: int where "IRQ_TX_DONE = 0x0001"
definition IRQ_RX_DONE :: int where "IRQ_RX_DONE = 0x0002"
definition IRQ_CAD_DONE :: int where "IRQ_CAD_DONE = 0x0004"
definition IRQ_CAD_DETECTED :: int where "IRQ_CAD_DETECTED = 0x0008"
definition IRQ_VALID_HEADER :: int where "IRQ_VALID_HEADER = 0x0010"

definition pin_busy_value :: "world \<Rightarrow> bool \<times> world" where
  "pin_busy_value w = (busy_pin w (busy_reads w), w\<lparr>busy_reads := busy_reads w + 1\<rparr>)"

text \<open>
  \<^verbatim>\<open>_wait_busy\<close>: the loop \<^verbatim>\<open>while self.pin_busy.value() and timeout > 0\<close>, with
  \<^verbatim>\<open>timeout = 1000\<close> at its start. The pin is sampled before the counter is looked at.
\<close>

function wait_busy_loop :: "int \<Rightarrow> world \<Rightarrow> world" where
  "wait_busy_loop timeout w =
     (case pin_busy_value w of
        (b, w1) \<Rightarrow>
          if b \<and> timeout > 0 then wait_busy_loop (timeout - 1) (sleep_ms 1 w1) else w1)"
  by pat_completeness auto
termination
  by (relation "measure (\<lambda>(timeout, w). nat timeout)") auto

definition wait_busy :: "world \<Rightarrow> world" where
  "wait_busy w = wait_busy_loop 1000 w"

text \<open>
  \<^verbatim>\<open>_spi_command(cmd, params)\<close>: wait, select the chip, write the command byte and the
  parameters, deselect, wait. (\<^verbatim>\<open>params=None\<close> is the empty list.)
\<close>

definition spi_command :: "byte \<Rightarrow> byte list \<Rightarrow> world \<Rightarrow> world" where
  "spi_command cmd params w =
     (let w1 = wait_busy w;
          w2 = w1\<lparr>bus := bus w1 @ [Txn (cmd # params) 0]\<rparr>
      in wait_busy w2)"

text \<open>
  The bytes of one \<^verbatim>\<open>spi.read(length)\<close>, and the transaction around it: command bytes
  out, \<open>length\<close> bytes in.
\<close>

definition spi_transfer :: "byte list \<Rightarrow> nat \<Rightarrow> world \<Rightarrow> byte list \<times> world" where
  "spi_transfer out len w =
     (map (miso w (spi_reads w)) [0..<len],
      w\<lparr>bus := bus w @ [Txn out len], spi_reads := spi_reads w + 1\<rparr>)"

text \<open>\<^verbatim>\<open>_spi_read(cmd, length)\<close>: wait, then command byte, a NOP byte, and the read.\<close>

definition spi_read :: "byte \<Rightarrow> nat \<Rightarrow> world \<Rightarrow> byte list \<times> world" where
  "spi_read cmd len w = spi_transfer [cmd, 0x00] len (wait_busy w)"

text \<open>\<^verbatim>\<open>_get_irq_status\<close>: \<^verbatim>\<open>(data[0] << 8) | data[1]\<close>.\<close>

definition get_irq_status :: "world \<Rightarrow> int \<times> world" where
  "get_irq_status w =
     (case spi_read CMD_GET_IRQ_STATUS 2 w of
        (data, w1) \<Rightarrow> (push_bit 8 (uint (data ! 0)) OR uint (data ! 1), w1))"

subsection \<open>The clock never runs backwards\<close>

declare wait_busy_loop.simps [simp del]

lemma clock_sleep_ms: "clock w \<le> clock (sleep_ms n w)"
  by (simp add: sleep_ms_def)

lemma clock_wait_busy_loop: "clock w \<le> clock (wait_busy_loop t w)"
proof (induction t w rule: wait_busy_loop.induct)
  case (1 timeout w)
  show ?case
  proof (cases "busy_pin w (busy_reads w) \<and> timeout > 0")
    case True
    have "clock w \<le> clock (sleep_ms 1 (w\<lparr>busy_reads := busy_reads w + 1\<rparr>))"
      by (simp add: sleep_ms_def)
    also have "\<dots> \<le> clock (wait_busy_loop (timeout - 1) (sleep_ms 1 (w\<lparr>busy_reads := busy_reads w + 1\<rparr>)))"
      using True by (intro "1.IH") (simp_all add: pin_busy_value_def)
    finally show ?thesis
      using True by (subst wait_busy_loop.simps) (simp add: pin_busy_value_def)
  next
    case False
    then show ?thesis
      by (subst wait_busy_loop.simps) (auto simp: pin_busy_value_def)
  qed
qed

lemma clock_wait_busy: "clock w \<le> clock (wait_busy w)"
  by (simp add: wait_busy_def clock_wait_busy_loop)

lemma clock_spi_command: "clock w \<le> clock (spi_command cmd params w)"
proof -
  have "clock w \<le> clock (wait_busy w)"
    by (rule clock_wait_busy)
  also have "\<dots> = clock ((wait_busy w)\<lparr>bus := bus (wait_busy w) @ [Txn (cmd # params) 0]\<rparr>)"
    by simp
  also have "\<dots> \<le> clock (spi_command cmd params w)"
    unfolding spi_command_def Let_def by (rule clock_wait_busy)
  finally show ?thesis .
qed

lemma clock_spi_transfer: "clock (snd (spi_transfer out len w)) = clock w"
  by (simp add: spi_transfer_def)

lemma clock_spi_read: "clock w \<le> clock (snd (spi_read cmd len w))"
  by (simp add: spi_read_def clock_spi_transfer clock_wait_busy)

lemma clock_get_irq_status: "get_irq_status w = (irq, w1) \<Longrightarrow> clock w \<le> clock w1"
  using clock_spi_read [of w CMD_GET_IRQ_STATUS 2]
  by (auto simp: get_irq_status_def split: prod.splits)

subsection \<open>\<^verbatim>\<open>LoRaRadio\<close>: the operations the MAC calls\<close>

text \<open>
  \<^verbatim>\<open>cad()\<close>: clear the interrupts, start a CAD cycle, poll the interrupt status for at most
  100 ms.
\<close>

function cad_loop :: "int \<Rightarrow> world \<Rightarrow> bool \<times> world" where
  "cad_loop start w =
     (if ticks_diff (ticks_ms w) start < 100 then
        (case get_irq_status w of
           (irq_status, w1) \<Rightarrow>
             if irq_status AND IRQ_CAD_DONE \<noteq> 0 then
               (irq_status AND IRQ_CAD_DETECTED \<noteq> 0,
                spi_command CMD_CLEAR_IRQ_STATUS [0xFF, 0xFF] w1)
             else cad_loop start (sleep_ms 1 w1))
      else (False, w))"
  by pat_completeness auto
termination
  by (relation "measure (\<lambda>(start, w). nat (100 - (clock w - start)))")
    (auto simp: sleep_ms_def ticks_diff_def ticks_ms_def dest!: clock_get_irq_status [OF sym])

definition cad :: "world \<Rightarrow> bool \<times> world" where
  "cad w =
     (let w1 = spi_command CMD_CLEAR_IRQ_STATUS [0xFF, 0xFF] w;
          w2 = spi_command CMD_SET_CAD [] w1
      in cad_loop (ticks_ms w2) w2)"

text \<open>
  \<^verbatim>\<open>send_packet(data, pkt_type)\<close>: the type byte goes in front of the data, the frame is
  written to the chip's buffer at offset 0, the transmitter is started, and the interrupt
  status is polled every 10 ms for at most 10 s. \<open>True\<close> on TxDone, \<open>False\<close> on timeout.
  (The MAC passes 1 or 2 as \<^verbatim>\<open>pkt_type\<close>, so \<^verbatim>\<open>bytes([pkt_type])\<close> is that one byte.)
\<close>

function send_packet_loop :: "int \<Rightarrow> world \<Rightarrow> bool \<times> world" where
  "send_packet_loop start w =
     (if ticks_diff (ticks_ms w) start < 10000 then
        (case get_irq_status w of
           (irq_status, w1) \<Rightarrow>
             if irq_status AND IRQ_TX_DONE \<noteq> 0 then
               (True, spi_command CMD_CLEAR_IRQ_STATUS [0xFF, 0xFF] w1)
             else send_packet_loop start (sleep_ms 10 w1))
      else (False, w))"
  by pat_completeness auto
termination
  by (relation "measure (\<lambda>(start, w). nat (10000 - (clock w - start)))")
    (auto simp: sleep_ms_def ticks_diff_def ticks_ms_def dest!: clock_get_irq_status [OF sym])

definition send_packet :: "byte list \<Rightarrow> int \<Rightarrow> world \<Rightarrow> bool \<times> world" where
  "send_packet data pkt_type w =
     (let payload = word_of_int pkt_type # data;
          w1 = spi_command CMD_WRITE_BUFFER (0x00 # payload) w;
          w2 = spi_command CMD_CLEAR_IRQ_STATUS [0xFF, 0xFF] w1;
          w3 = spi_command CMD_SET_TX [0x00, 0x00, 0x00] w2
      in send_packet_loop (ticks_ms w3) w3)"

text \<open>
  \<^verbatim>\<open>start_rx(timeout_ms)\<close>: 0 is continuous mode, anything else a timeout in steps of
  15.625 us, of which the low 24 bits are written.
\<close>

definition start_rx :: "int \<Rightarrow> world \<Rightarrow> world" where
  "start_rx timeout_ms w =
     (let w1 = w\<lparr>rx_buffer := None, valid_header_detected := False\<rparr>;
          w2 = spi_command CMD_CLEAR_IRQ_STATUS [0xFF, 0xFF] w1
      in if timeout_ms = 0 then spi_command CMD_SET_RX [0xFF, 0xFF, 0xFF] w2
         else
           (let timeout_val = timeout_ms * 64
            in spi_command CMD_SET_RX
                 [word_of_int (drop_bit 16 timeout_val),
                  word_of_int (drop_bit 8 timeout_val),
                  word_of_int timeout_val] w2))"

text \<open>\<^verbatim>\<open>rx_done()\<close>: latches ValidHeader, answers whether RxDone is set.\<close>

definition rx_done :: "world \<Rightarrow> bool \<times> world" where
  "rx_done w =
     (case get_irq_status w of
        (irq_status, w1) \<Rightarrow>
          (let w2 = (if irq_status AND IRQ_VALID_HEADER \<noteq> 0
                     then w1\<lparr>valid_header_detected := True\<rparr> else w1)
           in (irq_status AND IRQ_RX_DONE \<noteq> 0, w2)))"

text \<open>The dictionary \<^verbatim>\<open>read_packet\<close> returns.\<close>

record packet =
  pkt_type :: int
  payload :: "byte list"
  rssi :: int
  snr :: real

text \<open>
  \<^verbatim>\<open>read_packet()\<close>: the buffer status gives the length and the offset; an empty buffer
  is \<open>None\<close>; otherwise the first byte read is the type and the rest the payload.
\<close>

definition read_packet :: "world \<Rightarrow> packet option \<times> world" where
  "read_packet w =
     (case spi_read CMD_GET_RX_BUFFER_STATUS 2 w of
        (status_data, w1) \<Rightarrow>
          (let payload_len = status_data ! 0; buffer_offset = status_data ! 1
           in if payload_len = 0 then (None, w1)
              else
                (case spi_transfer [CMD_READ_BUFFER, buffer_offset, 0x00] (unat payload_len)
                        (wait_busy w1) of
                   (data, w2) \<Rightarrow>
                     (Some \<lparr>pkt_type = uint (data ! 0), payload = tl data,
                            rssi = -80, snr = 8\<rparr>,
                      spi_command CMD_CLEAR_IRQ_STATUS [0xFF, 0xFF] w2))))"

lemma clock_rx_done: "rx_done w = (d, w1) \<Longrightarrow> clock w \<le> clock w1"
  by (auto simp: rx_done_def Let_def split: prod.splits if_splits dest: clock_get_irq_status)

lemma clock_read_packet: "read_packet w = (k, w1) \<Longrightarrow> clock w \<le> clock w1"
proof -
  assume rp: "read_packet w = (k, w1)"
  obtain sd wa where sr: "spi_read CMD_GET_RX_BUFFER_STATUS 2 w = (sd, wa)"
    by (cases "spi_read CMD_GET_RX_BUFFER_STATUS 2 w")
  have a: "clock w \<le> clock wa"
    using clock_spi_read [of w CMD_GET_RX_BUFFER_STATUS 2] sr by simp
  show ?thesis
  proof (cases "sd ! 0 = 0")
    case True
    then show ?thesis
      using rp sr a by (simp add: read_packet_def)
  next
    case False
    obtain dt wb where tr:
      "spi_transfer [CMD_READ_BUFFER, sd ! 1, 0x00] (unat (sd ! 0)) (wait_busy wa) = (dt, wb)"
      by (cases "spi_transfer [CMD_READ_BUFFER, sd ! 1, 0x00] (unat (sd ! 0)) (wait_busy wa)")
    have "clock wb = clock (wait_busy wa)"
      using clock_spi_transfer [of "[CMD_READ_BUFFER, sd ! 1, 0x00]" "unat (sd ! 0)" "wait_busy wa"] tr
      by simp
    then have b: "clock wa \<le> clock wb"
      using clock_wait_busy [of wa] by simp
    have "w1 = spi_command CMD_CLEAR_IRQ_STATUS [0xFF, 0xFF] wb"
      using rp sr tr False by (simp add: read_packet_def Let_def)
    then have "clock wb \<le> clock w1"
      using clock_spi_command [of wb] by simp
    with a b show ?thesis by linarith
  qed
qed

subsection \<open>\<^verbatim>\<open>config.py\<close>: class \<^verbatim>\<open>MACConfig\<close>\<close>

record MACConfig =
  phase2_probability :: real
  backoff_window :: int
  difs_ms :: int
  use_cad :: bool
  freq_mhz :: real
  spreading_factor :: int
  bandwidth :: int
  tx_power :: int
  coding_rate :: int
  node_id :: int
  channel_id :: int

text \<open>The keyword arguments of the constructor: each one given or not.\<close>

record kwargs =
  kw_phase2_probability :: "real option"
  kw_backoff_window :: "int option"
  kw_difs_ms :: "int option"
  kw_use_cad :: "bool option"
  kw_freq_mhz :: "real option"
  kw_spreading_factor :: "int option"
  kw_bandwidth :: "int option"
  kw_tx_power :: "int option"
  kw_coding_rate :: "int option"
  kw_node_id :: "int option"
  kw_channel_id :: "int option"

text \<open>\<^verbatim>\<open>kwargs.get(key, default)\<close>.\<close>

definition kw_get :: "'a option \<Rightarrow> 'a \<Rightarrow> 'a" where
  "kw_get v d = (case v of None \<Rightarrow> d | Some x \<Rightarrow> x)"

definition MACConfig_init :: "kwargs \<Rightarrow> MACConfig" where
  "MACConfig_init kw =
     \<lparr>phase2_probability = kw_get (kw_phase2_probability kw) 0.1,
      backoff_window = kw_get (kw_backoff_window kw) 7,
      difs_ms = kw_get (kw_difs_ms kw) 400,
      use_cad = kw_get (kw_use_cad kw) True,
      freq_mhz = kw_get (kw_freq_mhz kw) 915.0,
      spreading_factor = kw_get (kw_spreading_factor kw) 12,
      bandwidth = kw_get (kw_bandwidth kw) 125,
      tx_power = kw_get (kw_tx_power kw) 14,
      coding_rate = kw_get (kw_coding_rate kw) 5,
      node_id = kw_get (kw_node_id kw) 0,
      channel_id = kw_get (kw_channel_id kw) 0\<rparr>"

subsection \<open>\<^verbatim>\<open>lora_mac.py\<close>: class \<^verbatim>\<open>LoRaMAC\<close>\<close>

definition PKT_TYPE_RTS :: int where "PKT_TYPE_RTS = 0x01"
definition PKT_TYPE_DATA :: int where "PKT_TYPE_DATA = 0x02"

definition PHASE_IDLE :: int where "PHASE_IDLE = 0"
definition PHASE_1_LISTEN :: int where "PHASE_1_LISTEN = 1"
definition PHASE_2_RTS :: int where "PHASE_2_RTS = 2"
definition PHASE_3_DATA :: int where "PHASE_3_DATA = 3"
definition PHASE_NAV :: int where "PHASE_NAV = 4"

definition PRIME_OFFSETS :: "int list" where
  "PRIME_OFFSETS = [5, 7, 11, 13, 17]"

record stats =
  tx_data :: int
  tx_rts :: int
  rx_data :: int
  rx_rts :: int
  nav_count :: int
  cad_detected :: int
  backoff_count :: int

text \<open>
  The attributes of a \<^verbatim>\<open>LoRaMAC\<close> object. \<^verbatim>\<open>self.w\<close> and \<^verbatim>\<open>self.p\<close> are \<open>mac_w\<close> and
  \<open>mac_p\<close>. \<^verbatim>\<open>self.radio\<close> lives in the \<open>world\<close>. \<open>on_receive_callback\<close> says whether a
  handler is registered; a call of the handler appends its arguments to \<open>inbox\<close> and
  returns.
\<close>

record LoRaMAC =
  config :: MACConfig
  phase :: int
  nav_until :: int
  mac_stats :: stats
  consecutive_navs :: int
  on_receive_callback :: bool
  difs :: int
  mac_w :: int
  mac_p :: real
  rts_toa :: int
  phase1_duration :: int

text \<open>\<^verbatim>\<open>_calculate_toa(payload_len)\<close>.\<close>

definition calculate_toa :: "int \<Rightarrow> int" where
  "calculate_toa payload_len =
     (let base_ms = 401; per_byte_ms = 37 in base_ms + (payload_len * per_byte_ms))"

text \<open>\<^verbatim>\<open>LoRaMAC.__init__(radio, config)\<close>.\<close>

definition LoRaMAC_init :: "MACConfig \<Rightarrow> LoRaMAC" where
  "LoRaMAC_init cfg =
     (let rts = calculate_toa 5
      in \<lparr>config = cfg,
          phase = PHASE_IDLE,
          nav_until = 0,
          mac_stats = \<lparr>tx_data = 0, tx_rts = 0, rx_data = 0, rx_rts = 0, nav_count = 0,
                       cad_detected = 0, backoff_count = 0\<rparr>,
          consecutive_navs = 0,
          on_receive_callback = False,
          difs = difs_ms cfg,
          mac_w = backoff_window cfg,
          mac_p = phase2_probability cfg,
          rts_toa = rts,
          phase1_duration = backoff_window cfg * difs_ms cfg + rts\<rparr>)"

text \<open>\<^verbatim>\<open>_in_nav()\<close>.\<close>

definition in_nav :: "LoRaMAC \<Rightarrow> world \<Rightarrow> bool" where
  "in_nav m w = (if nav_until m > ticks_ms w then True else False)"

text \<open>
  The three NAV paths end the same way: the exponential multiplier when
  \<^verbatim>\<open>consecutive_navs > 0\<close>, then the counter and the deadline.
  \<open>backoff_scaled c d\<close> is
  \<^verbatim>\<open>int(d * min(1.0 + (c * 0.3), 2.5))\<close> under that test.
\<close>

definition backoff_scaled :: "int \<Rightarrow> int \<Rightarrow> int" where
  "backoff_scaled c d =
     (if c > 0 then py_int (real_of_int d * min (1.0 + (real_of_int c * 0.3)) 2.5) else d)"

text \<open>
  \<^verbatim>\<open>PRIME_OFFSETS[urandom.randint(0, len(PRIME_OFFSETS) - 1)]\<close>, as written in five
  places.
\<close>

definition prime_offset :: "world \<Rightarrow> (error + int) \<times> world" where
  "prime_offset w =
     (case randint 0 (int (length PRIME_OFFSETS) - 1) w of
        (Inl e, w1) \<Rightarrow> (Inl e, w1)
      | (Inr i, w1) \<Rightarrow> (py_index PRIME_OFFSETS i, w1))"

text \<open>
  What an observer reads from an RTS payload, line 274:
  \<^verbatim>\<open>data_len = rts_packet['payload'][4]\<close>.
\<close>

definition rts_data_len :: "byte list \<Rightarrow> error + int" where
  "rts_data_len p = (case py_index p 4 of Inl e \<Rightarrow> Inl e | Inr b \<Rightarrow> Inr (uint b))"

text \<open>\<^verbatim>\<open>_enter_nav_from_rts(rts_packet)\<close>.\<close>

definition enter_nav_from_rts :: "packet \<Rightarrow> LoRaMAC \<Rightarrow> world \<Rightarrow> (error + unit) \<times> LoRaMAC \<times> world" where
  "enter_nav_from_rts rts_packet m w =
     (case rts_data_len (payload rts_packet) of
        Inl e \<Rightarrow> (Inl e, m, w)
      | Inr data_len \<Rightarrow>
        (let data_toa = calculate_toa data_len;
             nav_duration = phase1_duration m + (mac_w m * difs m) + data_toa
         in case prime_offset w of
              (Inl e, w1) \<Rightarrow> (Inl e, m, w1)
            | (Inr po, w1) \<Rightarrow>
                (let nav_duration1 = nav_duration + po
                 in case randint (py_int (real_of_int nav_duration1 * 0.05))
                           (py_int (real_of_int nav_duration1 * 0.15)) w1 of
                      (Inl e, w2) \<Rightarrow> (Inl e, m, w2)
                    | (Inr jitter, w2) \<Rightarrow>
                        (let nav_duration2 = nav_duration1 + jitter;
                             nav_duration3 = backoff_scaled (consecutive_navs m) nav_duration2;
                             m1 = m\<lparr>consecutive_navs := consecutive_navs m + 1\<rparr>;
                             m2 = m1\<lparr>nav_until := ticks_ms w2 + nav_duration3\<rparr>;
                             m3 = m2\<lparr>phase := PHASE_NAV\<rparr>;
                             m4 = m3\<lparr>mac_stats := (mac_stats m3)
                                     \<lparr>nav_count := nav_count (mac_stats m3) + 1\<rparr>\<rparr>
                         in (Inr (), m4, w2)))))"

text \<open>\<^verbatim>\<open>_enter_nav_random()\<close>.\<close>

definition enter_nav_random :: "LoRaMAC \<Rightarrow> world \<Rightarrow> (error + unit) \<times> LoRaMAC \<times> world" where
  "enter_nav_random m w =
     (let max_toa = calculate_toa 255
      in case randint (py_int (real_of_int max_toa * 0.8)) (py_int (real_of_int max_toa * 1.2)) w of
           (Inl e, w1) \<Rightarrow> (Inl e, m, w1)
         | (Inr nav_duration, w1) \<Rightarrow>
             (case prime_offset w1 of
                (Inl e, w2) \<Rightarrow> (Inl e, m, w2)
              | (Inr po, w2) \<Rightarrow>
                  (let nav_duration1 = nav_duration + po;
                       nav_duration2 = backoff_scaled (consecutive_navs m) nav_duration1;
                       m1 = m\<lparr>consecutive_navs := consecutive_navs m + 1\<rparr>;
                       m2 = m1\<lparr>nav_until := ticks_ms w2 + nav_duration2\<rparr>;
                       m3 = m2\<lparr>phase := PHASE_NAV\<rparr>;
                       m4 = m3\<lparr>mac_stats := (mac_stats m3)
                               \<lparr>nav_count := nav_count (mac_stats m3) + 1\<rparr>\<rparr>
                   in (Inr (), m4, w2))))"

text \<open>\<^verbatim>\<open>_defer_random()\<close>.\<close>

definition defer_random :: "LoRaMAC \<Rightarrow> world \<Rightarrow> (error + unit) \<times> LoRaMAC \<times> world" where
  "defer_random m w =
     (case randint (phase1_duration m) (phase1_duration m * 3) w of
        (Inl e, w1) \<Rightarrow> (Inl e, m, w1)
      | (Inr defer_duration, w1) \<Rightarrow>
          (case prime_offset w1 of
             (Inl e, w2) \<Rightarrow> (Inl e, m, w2)
           | (Inr po, w2) \<Rightarrow>
               (let defer_duration1 = defer_duration + po;
                    defer_duration2 = backoff_scaled (consecutive_navs m) defer_duration1;
                    m1 = m\<lparr>consecutive_navs := consecutive_navs m + 1\<rparr>;
                    m2 = m1\<lparr>nav_until := ticks_ms w2 + defer_duration2\<rparr>;
                    m3 = m2\<lparr>phase := PHASE_NAV\<rparr>
                in (Inr (), m3, w2))))"

text \<open>
  The polling loop of a listen window, lines 139-168 (Phase 1) and 210-235 (Phase 2) of
  \<^verbatim>\<open>lora_mac.py\<close>: the two are the same statements but for their log messages, and
  \<^verbatim>\<open>listen_duration\<close> of the second is \<^verbatim>\<open>self.phase1_duration\<close>. \<open>Some r\<close> is a
  \<^verbatim>\<open>return\<close> from inside the loop, \<open>None\<close> the loop running out.
\<close>

function listen_loop ::
  "int \<Rightarrow> int \<Rightarrow> int \<Rightarrow> LoRaMAC \<Rightarrow> world \<Rightarrow> (error + bool) option \<times> LoRaMAC \<times> world" where
  "listen_loop start poll_interval idle_count m w =
     (if ticks_diff (ticks_ms w) start < phase1_duration m then
        (case rx_done w of
           (True, w1) \<Rightarrow>
             (case read_packet w1 of
                (pkt, w2) \<Rightarrow>
                  if pkt \<noteq> None \<and> pkt_type (the pkt) = PKT_TYPE_RTS then
                    (let m1 = m\<lparr>mac_stats := (mac_stats m)\<lparr>rx_rts := rx_rts (mac_stats m) + 1\<rparr>\<rparr>
                     in case enter_nav_from_rts (the pkt) m1 w2 of
                          (Inl e, m2, w3) \<Rightarrow> (Some (Inl e), m2, w3)
                        | (Inr u, m2, w3) \<Rightarrow> (Some (Inr False), m2, w3))
                  else if pkt \<noteq> None \<and> pkt_type (the pkt) = PKT_TYPE_DATA then
                    (let m1 = m\<lparr>mac_stats := (mac_stats m)\<lparr>rx_data := rx_data (mac_stats m) + 1\<rparr>\<rparr>;
                         w3 = (if on_receive_callback m1
                               then w2\<lparr>inbox := inbox w2 @
                                      [(payload (the pkt), rssi (the pkt), snr (the pkt))]\<rparr>
                               else w2)
                     in case enter_nav_random m1 w3 of
                          (Inl e, m2, w4) \<Rightarrow> (Some (Inl e), m2, w4)
                        | (Inr u, m2, w4) \<Rightarrow> (Some (Inr False), m2, w4))
                  else listen_loop start 11 0 m (sleep_ms 11 w2))
         | (False, w1) \<Rightarrow>
             (let idle_count1 = idle_count + 1;
                  poll_interval1 = (if idle_count1 > 3 then 23 else poll_interval);
                  poll_interval2 = (if idle_count1 > 7 then 41 else poll_interval1)
              in listen_loop start poll_interval2 idle_count1 m (sleep_ms poll_interval2 w1)))
      else (None, m, w))"
  by pat_completeness auto
termination
  apply (relation "measures [\<lambda>(start, poll_interval, idle_count, m, w).
                             nat (phase1_duration m - (clock w - start)),
                           \<lambda>(start, poll_interval, idle_count, m, w). nat (4 - idle_count)]")
   apply simp
  subgoal for start poll_interval idle_count m w d w1 pkt w2
    using clock_rx_done [of w d w1] clock_read_packet [of w1 pkt w2]
    by (simp add: sleep_ms_def ticks_diff_def ticks_ms_def)
  subgoal for start poll_interval idle_count m w d w1 idle_count1 poll_interval1 poll_interval2
    using clock_rx_done [of w d w1]
    by (auto simp: sleep_ms_def ticks_diff_def ticks_ms_def max_def)
  done

declare listen_loop.simps [simp del]
declare cad_loop.simps [simp del]
declare send_packet_loop.simps [simp del]

text \<open>\<^verbatim>\<open>_phase3_send_data(data)\<close>. The value of \<^verbatim>\<open>send_packet\<close> is not looked at.\<close>

definition phase3_send_data :: "byte list \<Rightarrow> LoRaMAC \<Rightarrow> world \<Rightarrow> (error + bool) \<times> LoRaMAC \<times> world" where
  "phase3_send_data data m w =
     (let m1 = m\<lparr>phase := PHASE_3_DATA\<rparr>
      in case randint 0 (mac_w m1) w of
           (Inl e, w1) \<Rightarrow> (Inl e, m1, w1)
         | (Inr r, w1) \<Rightarrow>
             (let backoff = r * difs m1
              in case prime_offset w1 of
                   (Inl e, w2) \<Rightarrow> (Inl e, m1, w2)
                 | (Inr po, w2) \<Rightarrow>
                     (let backoff1 = backoff + po;
                          w3 = sleep_ms backoff1 w2;
                          m2 = m1\<lparr>mac_stats := (mac_stats m1)
                                  \<lparr>backoff_count := backoff_count (mac_stats m1) + 1\<rparr>\<rparr>
                      in case send_packet data PKT_TYPE_DATA w3 of
                           (sent, w4) \<Rightarrow>
                             (let m3 = m2\<lparr>mac_stats := (mac_stats m2)
                                          \<lparr>tx_data := tx_data (mac_stats m2) + 1\<rparr>\<rparr>;
                                  m4 = m3\<lparr>consecutive_navs := 0\<rparr>;
                                  m5 = m4\<lparr>phase := PHASE_IDLE\<rparr>
                              in (Inr True, m5, w4)))))"

text \<open>
  The RTS payload of line 194, \<^verbatim>\<open>bytearray([0xCA, 0xFE, 0xBA, 0xBE, data_len])\<close>.
\<close>

definition rts_bytes :: "bool \<Rightarrow> int \<Rightarrow> error + byte list" where
  "rts_bytes strict data_len = bytearray strict [0xCA, 0xFE, 0xBA, 0xBE, data_len]"

text \<open>\<^verbatim>\<open>_phase2_send_rts(pending_data)\<close>. The value of \<^verbatim>\<open>send_packet\<close> is not looked at.\<close>

definition phase2_send_rts :: "byte list \<Rightarrow> LoRaMAC \<Rightarrow> world \<Rightarrow> (error + bool) \<times> LoRaMAC \<times> world" where
  "phase2_send_rts pending_data m w =
     (let m1 = m\<lparr>phase := PHASE_2_RTS\<rparr>
      in case randint 0 (mac_w m1) w of
           (Inl e, w1) \<Rightarrow> (Inl e, m1, w1)
         | (Inr r, w1) \<Rightarrow>
             (let backoff = r * difs m1
              in case prime_offset w1 of
                   (Inl e, w2) \<Rightarrow> (Inl e, m1, w2)
                 | (Inr po, w2) \<Rightarrow>
                     (let backoff1 = backoff + po;
                          w3 = sleep_ms backoff1 w2;
                          m2 = m1\<lparr>mac_stats := (mac_stats m1)
                                  \<lparr>backoff_count := backoff_count (mac_stats m1) + 1\<rparr>\<rparr>;
                          data_len = int (length pending_data)
                      in case rts_bytes (strict_bytes w3) data_len of
                           Inl e \<Rightarrow> (Inl e, m2, w3)
                         | Inr rts_packet \<Rightarrow>
                             (case send_packet rts_packet PKT_TYPE_RTS w3 of
                                (sent, w4) \<Rightarrow>
                                  (let m3 = m2\<lparr>mac_stats := (mac_stats m2)
                                               \<lparr>tx_rts := tx_rts (mac_stats m2) + 1\<rparr>\<rparr>;
                                       w5 = start_rx (phase1_duration m3) w4
                                   in case listen_loop (ticks_ms w5) 11 0 m3 w5 of
                                        (Some r, m4, w6) \<Rightarrow> (r, m4, w6)
                                      | (None, m4, w6) \<Rightarrow> phase3_send_data pending_data m4 w6)))))"

text \<open>\<^verbatim>\<open>_phase1_listen_rts(pending_data)\<close>.\<close>

definition phase1_listen_rts :: "byte list \<Rightarrow> LoRaMAC \<Rightarrow> world \<Rightarrow> (error + bool) \<times> LoRaMAC \<times> world" where
  "phase1_listen_rts pending_data m w =
     (let m1 = m\<lparr>phase := PHASE_1_LISTEN\<rparr>;
          w1 = start_rx (phase1_duration m1) w
      in case listen_loop (ticks_ms w1) 11 0 m1 w1 of
           (Some r, m2, w2) \<Rightarrow> (r, m2, w2)
         | (None, m2, w2) \<Rightarrow> phase2_send_rts pending_data m2 w2)"

text \<open>
  \<^verbatim>\<open>send_data(data, priority)\<close>, the \<^verbatim>\<open>send()\<close> of the specification: \<open>Inr True\<close> is
  \<^verbatim>\<open>Sent\<close>, \<open>Inr False\<close> is \<^verbatim>\<open>Deferred\<close>. \<^verbatim>\<open>and\<close> and \<^verbatim>\<open>or\<close> evaluate their right operand
  only when the left one does not decide.
\<close>

definition send_data :: "byte list \<Rightarrow> string \<Rightarrow> LoRaMAC \<Rightarrow> world \<Rightarrow> (error + bool) \<times> LoRaMAC \<times> world" where
  "send_data data priority m w =
     (if in_nav m w then (Inr False, m, w)
      else
        (case (if use_cad (config m) then cad w else (False, w)) of
           (True, w1) \<Rightarrow>
             (let m1 = m\<lparr>mac_stats := (mac_stats m)
                         \<lparr>cad_detected := cad_detected (mac_stats m) + 1\<rparr>\<rparr>
              in case defer_random m1 w1 of
                   (Inl e, m2, w2) \<Rightarrow> (Inl e, m2, w2)
                 | (Inr u, m2, w2) \<Rightarrow> (Inr False, m2, w2))
         | (False, w1) \<Rightarrow>
             (if priority = ''high'' then phase2_send_rts data m w1
              else
                (case random w1 of
                   (r, w2) \<Rightarrow>
                     if r < mac_p m then phase2_send_rts data m w2
                     else phase1_listen_rts data m w2))))"

text \<open>\<^verbatim>\<open>start_listening()\<close>, \<^verbatim>\<open>on_receive(callback)\<close> and \<^verbatim>\<open>get_stats()\<close>.\<close>

definition start_listening :: "LoRaMAC \<Rightarrow> world \<Rightarrow> LoRaMAC \<times> world" where
  "start_listening m w = (m, start_rx 0 w)"

definition on_receive :: "LoRaMAC \<Rightarrow> LoRaMAC" where
  "on_receive m = m\<lparr>on_receive_callback := True\<rparr>"

definition get_stats :: "LoRaMAC \<Rightarrow> stats" where
  "get_stats m = mac_stats m"

subsection \<open>What a call puts on the air\<close>

text \<open>
  The chip transmits what \<^verbatim>\<open>CMD_WRITE_BUFFER\<close> loaded when \<^verbatim>\<open>CMD_SET_TX\<close> arrives.
  \<open>tx_view\<close> keeps, of a log of SPI transactions, those two commands in their order:
  it is the record of the frames handed to the transmitter.
\<close>

definition is_tx_cmd :: "spi_txn \<Rightarrow> bool" where
  "is_tx_cmd t =
     (case mosi_bytes t of [] \<Rightarrow> False | c # ps \<Rightarrow> c = CMD_WRITE_BUFFER \<or> c = CMD_SET_TX)"

definition tx_view :: "spi_txn list \<Rightarrow> spi_txn list" where
  "tx_view ts = filter is_tx_cmd ts"

text \<open>
  The two transactions of one \<^verbatim>\<open>send_packet(data, pkt_type)\<close>: the frame (type byte,
  then data) written at buffer offset 0, and the start of the transmitter.
\<close>

definition emission :: "int \<Rightarrow> byte list \<Rightarrow> spi_txn list" where
  "emission ty data =
     [Txn (CMD_WRITE_BUFFER # 0x00 # word_of_int ty # data) 0,
      Txn [CMD_SET_TX, 0x00, 0x00, 0x00] 0]"

subsection \<open>Concrete worlds and configurations\<close>

text \<open>
  \<open>idle_air\<close>: a chip that is never busy, reports TxDone (and nothing else) at every
  status read, and receives nothing; every random draw is 0.
\<close>

definition idle_air :: world where
  "idle_air =
     \<lparr>clock = 0, busy_pin = (\<lambda>k. False), busy_reads = 0,
      miso = (\<lambda>k i. if i = 1 then 0x01 else 0x00), spi_reads = 0, bus = [],
      rx_buffer = None, valid_header_detected = False,
      entropy = (\<lambda>k. 0), draws = 0, coin = (\<lambda>k. 0), flips = 0, inbox = [],
      strict_bytes = False\<rparr>"

text \<open>\<^verbatim>\<open>MACConfig()\<close> with no keyword, and one with values outside every documented range.\<close>

definition no_kwargs :: kwargs where
  "no_kwargs =
     \<lparr>kw_phase2_probability = None, kw_backoff_window = None, kw_difs_ms = None,
      kw_use_cad = None, kw_freq_mhz = None, kw_spreading_factor = None, kw_bandwidth = None,
      kw_tx_power = None, kw_coding_rate = None, kw_node_id = None, kw_channel_id = None\<rparr>"

definition bad_kwargs :: kwargs where
  "bad_kwargs =
     no_kwargs\<lparr>kw_phase2_probability := Some 2, kw_backoff_window := Some (- 1),
       kw_difs_ms := Some 0\<rparr>"

text \<open>The MAC object of \<^verbatim>\<open>LoRaMAC(radio, MACConfig())\<close>: \<open>W = 7\<close>, \<open>difs_ms = 400\<close>, CAD on.\<close>

definition default_mac :: LoRaMAC where
  "default_mac = LoRaMAC_init (MACConfig_init no_kwargs)"

text \<open>A received RTS announcing 16 bytes of data.\<close>

definition heard_rts :: packet where
  "heard_rts = \<lparr>pkt_type = PKT_TYPE_RTS, payload = [0xCA, 0xFE, 0xBA, 0xBE, 0x10],
                 rssi = - 80, snr = 8\<rparr>"

text \<open>\<open>cad_air\<close>: every status read shows CadDone and CadDetected.\<close>

definition cad_air :: world where
  "cad_air = idle_air\<lparr>miso := (\<lambda>k i. if i = 1 then 0x0C else 0x00)\<rparr>"

text \<open>
  A small configuration for running whole calls: \<open>W = 0\<close>, \<open>difs_ms = 1\<close> (a listen window
  of 586 ms), CAD off.
\<close>

definition quick_kwargs :: kwargs where
  "quick_kwargs =
     no_kwargs\<lparr>kw_backoff_window := Some 0, kw_difs_ms := Some 1, kw_use_cad := Some False\<rparr>"

definition quick_mac :: LoRaMAC where
  "quick_mac = LoRaMAC_init (MACConfig_init quick_kwargs)"


text \<open>
  \<open>frame_air frame\<close>: every status read shows TxDone and RxDone; the third SPI read (the
  buffer status) announces \<open>length frame\<close> bytes at offset 0 and the fourth delivers
  \<open>frame\<close>, type byte first.
\<close>

definition frame_air :: "byte list \<Rightarrow> world" where
  "frame_air frame =
     idle_air\<lparr>miso := (\<lambda>k i.
       if k = 2 then (if i = 0 then of_nat (length frame) else 0x00)
       else if k = 3 then (if i < length frame then frame ! i else 0x00)
       else (if i = 1 then 0x03 else 0x00))\<rparr>"

text \<open>
  Two configurations with a negative slot length, which the constructor accepts:
  \<open>W = 1\<close> with \<open>difs_ms = -500\<close> (a listen window of 86 ms) and with \<open>difs_ms = -585\<close>
  (a listen window of 1 ms); CAD off.
\<close>

definition neg_difs_mac :: LoRaMAC where
  "neg_difs_mac =
     LoRaMAC_init (MACConfig_init
       (no_kwargs\<lparr>kw_backoff_window := Some 1, kw_difs_ms := Some (- 500),
          kw_use_cad := Some False\<rparr>))"

definition neg_difs_mac2 :: LoRaMAC where
  "neg_difs_mac2 =
     LoRaMAC_init (MACConfig_init
       (no_kwargs\<lparr>kw_backoff_window := Some 1, kw_difs_ms := Some (- 585),
          kw_use_cad := Some False\<rparr>))"

subsection \<open>The SPI log under the driver's operations\<close>

lemma bus_sleep_ms [simp]: "bus (sleep_ms n w) = bus w"
  by (simp add: sleep_ms_def)

lemma bus_wait_busy_loop: "bus (wait_busy_loop t w) = bus w"
proof (induction t w rule: wait_busy_loop.induct)
  case (1 timeout w)
  show ?case
  proof (cases "busy_pin w (busy_reads w) \<and> timeout > 0")
    case True
    then have "bus (wait_busy_loop (timeout - 1) (sleep_ms 1 (w\<lparr>busy_reads := busy_reads w + 1\<rparr>)))
               = bus (sleep_ms 1 (w\<lparr>busy_reads := busy_reads w + 1\<rparr>))"
      by (intro "1.IH") (simp_all add: pin_busy_value_def)
    then show ?thesis
      using True by (subst wait_busy_loop.simps) (simp add: pin_busy_value_def)
  next
    case False
    then show ?thesis
      by (subst wait_busy_loop.simps) (auto simp: pin_busy_value_def)
  qed
qed

lemma bus_wait_busy [simp]: "bus (wait_busy w) = bus w"
  by (simp add: wait_busy_def bus_wait_busy_loop)

lemma bus_spi_command [simp]: "bus (spi_command cmd params w) = bus w @ [Txn (cmd # params) 0]"
  by (simp add: spi_command_def Let_def)

lemma bus_spi_transfer [simp]: "bus (snd (spi_transfer out len w)) = bus w @ [Txn out len]"
  by (simp add: spi_transfer_def)

lemma bus_spi_read [simp]: "bus (snd (spi_read cmd len w)) = bus w @ [Txn [cmd, 0x00] len]"
  by (simp add: spi_read_def)

lemma bus_get_irq_status [simp]:
  "bus (snd (get_irq_status w)) = bus w @ [Txn [CMD_GET_IRQ_STATUS, 0x00] 2]"
proof -
  obtain d w1 where s: "spi_read CMD_GET_IRQ_STATUS 2 w = (d, w1)"
    by (cases "spi_read CMD_GET_IRQ_STATUS 2 w")
  have "bus w1 = bus w @ [Txn [CMD_GET_IRQ_STATUS, 0x00] 2]"
    using bus_spi_read [of CMD_GET_IRQ_STATUS 2 w] s by (simp del: bus_spi_read)
  then show ?thesis
    using s by (simp add: get_irq_status_def)
qed

lemma tx_view_append [simp]: "tx_view (xs @ ys) = tx_view xs @ tx_view ys"
  by (simp add: tx_view_def)

lemma tx_view_other [simp]:
  "c \<noteq> CMD_WRITE_BUFFER \<Longrightarrow> c \<noteq> CMD_SET_TX \<Longrightarrow> tx_view [Txn (c # ps) n] = []"
  by (simp add: tx_view_def is_tx_cmd_def)

lemma tx_view_emission [simp]: "tx_view (emission t d) = emission t d"
  by (simp add: tx_view_def is_tx_cmd_def emission_def)

lemma cmd_distinct [simp]:
  "CMD_GET_IRQ_STATUS \<noteq> CMD_WRITE_BUFFER" "CMD_GET_IRQ_STATUS \<noteq> CMD_SET_TX"
  "CMD_CLEAR_IRQ_STATUS \<noteq> CMD_WRITE_BUFFER" "CMD_CLEAR_IRQ_STATUS \<noteq> CMD_SET_TX"
  "CMD_SET_RX \<noteq> CMD_WRITE_BUFFER" "CMD_SET_RX \<noteq> CMD_SET_TX"
  "CMD_SET_CAD \<noteq> CMD_WRITE_BUFFER" "CMD_SET_CAD \<noteq> CMD_SET_TX"
  "CMD_READ_BUFFER \<noteq> CMD_WRITE_BUFFER" "CMD_READ_BUFFER \<noteq> CMD_SET_TX"
  "CMD_GET_RX_BUFFER_STATUS \<noteq> CMD_WRITE_BUFFER" "CMD_GET_RX_BUFFER_STATUS \<noteq> CMD_SET_TX"
  by (simp_all add: CMD_GET_IRQ_STATUS_def CMD_WRITE_BUFFER_def CMD_SET_TX_def
      CMD_CLEAR_IRQ_STATUS_def CMD_SET_RX_def CMD_SET_CAD_def CMD_READ_BUFFER_def
      CMD_GET_RX_BUFFER_STATUS_def)

lemma tx_get_irq_status:
  "get_irq_status w = (irq, w1) \<Longrightarrow> tx_view (bus w1) = tx_view (bus w)"
  using bus_get_irq_status [of w] by simp

lemma tx_send_packet_loop:
  "send_packet_loop start w = (r, w') \<Longrightarrow> tx_view (bus w') = tx_view (bus w)"
proof (induction start w arbitrary: r w' rule: send_packet_loop.induct)
  case (1 start w)
  obtain irq w1 where g: "get_irq_status w = (irq, w1)"
    by (cases "get_irq_status w")
  note tx1 = tx_get_irq_status [OF g]
  show ?case
  proof (cases "ticks_diff (ticks_ms w) start < 10000")
    case False
    then show ?thesis
      using "1.prems" by (subst (asm) send_packet_loop.simps) simp
  next
    case t: True
    show ?thesis
    proof (cases "irq AND IRQ_TX_DONE \<noteq> 0")
      case True
      then show ?thesis
        using "1.prems" t g tx1 by (subst (asm) send_packet_loop.simps) auto
    next
      case False
      then have "send_packet_loop start (sleep_ms 10 w1) = (r, w')"
        using "1.prems" t g by (subst (asm) send_packet_loop.simps) simp
      then have "tx_view (bus w') = tx_view (bus (sleep_ms 10 w1))"
        using "1.IH" [OF t g [symmetric] False] by simp
      then show ?thesis
        using tx1 by simp
    qed
  qed
qed

lemma tx_send_packet:
  "send_packet data t w = (r, w') \<Longrightarrow> tx_view (bus w') = tx_view (bus w) @ emission t data"
  by (auto simp: send_packet_def Let_def emission_def tx_view_def is_tx_cmd_def
      dest!: tx_send_packet_loop)

subsection \<open>Random draws and the NAV arithmetic\<close>

lemma randint_range:
  "randint a b w = (Inr r, w1) \<Longrightarrow> a \<le> r \<and> r \<le> b \<and> w1 = w\<lparr>draws := draws w + 1\<rparr>"
proof -
  assume h: "randint a b w = (Inr r, w1)"
  then have ab: "a \<le> b"
    by (auto simp: randint_def split: if_splits)
  then have r: "r = a + int (entropy w (draws w)) mod (b - a + 1)" and w1: "w1 = w\<lparr>draws := draws w + 1\<rparr>"
    using h by (auto simp: randint_def)
  have "0 \<le> int (entropy w (draws w)) mod (b - a + 1)"
    using ab by (intro pos_mod_sign) linarith
  moreover have "int (entropy w (draws w)) mod (b - a + 1) < b - a + 1"
    using ab by (intro pos_mod_bound) linarith
  ultimately show ?thesis
    using r w1 by linarith
qed

lemma randint_error: "randint a b w = (Inl e, w1) \<Longrightarrow> w1 = w"
  by (auto simp: randint_def split: if_splits)

lemma py_index_in_set: "py_index xs i = Inr x \<Longrightarrow> x \<in> set xs"
  by (auto simp: py_index_def split: if_splits)

lemma prime_offset_range:
  "prime_offset w = (Inr po, w1) \<Longrightarrow> 5 \<le> po \<and> po \<le> 17 \<and> w1 = w\<lparr>draws := draws w + 1\<rparr>"
proof -
  assume h: "prime_offset w = (Inr po, w1)"
  obtain r wa where ri: "randint 0 (int (length PRIME_OFFSETS) - 1) w = (r, wa)"
    by (cases "randint 0 (int (length PRIME_OFFSETS) - 1) w")
  show ?thesis
  proof (cases r)
    case (Inl e)
    then show ?thesis using h ri by (simp add: prime_offset_def)
  next
    case (Inr i)
    then have "py_index PRIME_OFFSETS i = Inr po" and "w1 = wa"
      using h ri by (simp_all add: prime_offset_def)
    then have "po \<in> set PRIME_OFFSETS" and "w1 = w\<lparr>draws := draws w + 1\<rparr>"
      using py_index_in_set [of PRIME_OFFSETS i po] randint_range [of 0 _ w i wa] ri Inr by simp_all
    then show ?thesis
      by (auto simp: PRIME_OFFSETS_def)
  qed
qed

lemma prime_offset_error: "prime_offset w = (Inl e, w1) \<Longrightarrow> w1 = w \<or> w1 = w\<lparr>draws := draws w + 1\<rparr>"
  unfolding prime_offset_def
  by (auto split: prod.splits sum.splits dest: randint_error randint_range)

lemma py_int_nonneg: "0 \<le> x \<Longrightarrow> 0 \<le> py_int x"
  by (simp add: py_int_def)

lemma backoff_scaled_ge: "0 \<le> d \<Longrightarrow> d \<le> backoff_scaled c d"
proof (cases "c > 0")
  case False
  then show ?thesis by (simp add: backoff_scaled_def)
next
  case True
  assume d: "0 \<le> d"
  have m: "1 \<le> min (1.0 + (real_of_int c * 0.3)) (2.5::real)"
    using True by simp
  have "real_of_int d * 1 \<le> real_of_int d * min (1.0 + (real_of_int c * 0.3)) 2.5"
    using d m by (intro mult_left_mono) simp_all
  then have "d \<le> \<lfloor>real_of_int d * min (1.0 + (real_of_int c * 0.3)) 2.5\<rfloor>"
    by (simp add: le_floor_iff)
  moreover have "0 \<le> real_of_int d * min (1.0 + (real_of_int c * 0.3)) 2.5"
    using d m by (intro mult_nonneg_nonneg) simp_all
  ultimately show ?thesis
    using True by (simp add: backoff_scaled_def py_int_def)
qed

lemma rts_data_len_nonneg: "rts_data_len p = Inr L \<Longrightarrow> 0 \<le> L \<and> L \<le> 255"
proof -
  assume "rts_data_len p = Inr L"
  then obtain b :: byte where "L = uint b"
    by (auto simp: rts_data_len_def split: sum.splits)
  moreover have "uint b < 2 ^ 8"
    using uint_bounded [of b] by simp
  ultimately show ?thesis by simp
qed

subsection \<open>Operations that hand nothing to the transmitter\<close>

text \<open>
  \<open>same_env w w'\<close>: the oracles of \<open>w'\<close> are those of \<open>w\<close>. \<open>silent w w'\<close>: moreover no
  transmit command was logged between \<open>w\<close> and \<open>w'\<close>.
\<close>

definition same_env :: "world \<Rightarrow> world \<Rightarrow> bool" where
  "same_env w w' =
     (busy_pin w' = busy_pin w \<and> miso w' = miso w \<and> entropy w' = entropy w \<and>
      coin w' = coin w \<and> strict_bytes w' = strict_bytes w)"

definition silent :: "world \<Rightarrow> world \<Rightarrow> bool" where
  "silent w w' = (same_env w w' \<and> tx_view (bus w') = tx_view (bus w))"

lemma silent_refl [simp]: "silent w w"
  by (simp add: silent_def same_env_def)

lemma silent_trans: "silent a b \<Longrightarrow> silent b c \<Longrightarrow> silent a c"
  by (simp add: silent_def same_env_def)

lemma same_env_trans: "same_env a b \<Longrightarrow> same_env b c \<Longrightarrow> same_env a c"
  by (simp add: same_env_def)

lemma silent_sleep_ms [simp]: "silent w (sleep_ms n w)"
  by (simp add: silent_def same_env_def sleep_ms_def)

lemma silent_wait_busy_loop: "silent w (wait_busy_loop t w)"
proof (induction t w rule: wait_busy_loop.induct)
  case (1 timeout w)
  let ?w1 = "w\<lparr>busy_reads := busy_reads w + 1\<rparr>"
  have s1: "silent w (sleep_ms 1 ?w1)"
    by (simp add: silent_def same_env_def sleep_ms_def)
  show ?case
  proof (cases "busy_pin w (busy_reads w) \<and> timeout > 0")
    case True
    then have "silent (sleep_ms 1 ?w1) (wait_busy_loop (timeout - 1) (sleep_ms 1 ?w1))"
      by (intro "1.IH") (simp_all add: pin_busy_value_def)
    with s1 have "silent w (wait_busy_loop (timeout - 1) (sleep_ms 1 ?w1))"
      by (rule silent_trans)
    then show ?thesis
      using True by (subst wait_busy_loop.simps) (simp add: pin_busy_value_def)
  next
    case False
    then show ?thesis
      by (subst wait_busy_loop.simps) (auto simp: pin_busy_value_def silent_def same_env_def)
  qed
qed

lemma silent_wait_busy [simp]: "silent w (wait_busy w)"
  by (simp add: wait_busy_def silent_wait_busy_loop)

lemma same_env_spi_command [simp]: "same_env w (spi_command cmd params w)"
proof -
  have a: "same_env w (wait_busy w)"
    using silent_wait_busy [of w] by (simp add: silent_def)
  have b: "same_env (wait_busy w) ((wait_busy w)\<lparr>bus := bus (wait_busy w) @ [Txn (cmd # params) 0]\<rparr>)"
    by (simp add: same_env_def)
  have c: "same_env ((wait_busy w)\<lparr>bus := bus (wait_busy w) @ [Txn (cmd # params) 0]\<rparr>)
             (spi_command cmd params w)"
    unfolding spi_command_def Let_def
    using silent_wait_busy [of "(wait_busy w)\<lparr>bus := bus (wait_busy w) @ [Txn (cmd # params) 0]\<rparr>"]
    by (simp add: silent_def)
  from a b c show ?thesis
    by (blast intro: same_env_trans)
qed

lemma silent_spi_command:
  "cmd \<noteq> CMD_WRITE_BUFFER \<Longrightarrow> cmd \<noteq> CMD_SET_TX \<Longrightarrow> silent w (spi_command cmd params w)"
  by (simp add: silent_def)

lemma silent_spi_transfer:
  "c \<noteq> CMD_WRITE_BUFFER \<Longrightarrow> c \<noteq> CMD_SET_TX \<Longrightarrow> spi_transfer (c # out) len w = (d, w1)
     \<Longrightarrow> silent w w1"
  by (auto simp: spi_transfer_def silent_def same_env_def)

lemma silent_spi_read:
  "c \<noteq> CMD_WRITE_BUFFER \<Longrightarrow> c \<noteq> CMD_SET_TX \<Longrightarrow> spi_read c len w = (d, w1) \<Longrightarrow> silent w w1"
  unfolding spi_read_def
  by (blast intro: silent_trans silent_wait_busy silent_spi_transfer)

lemma silent_get_irq_status: "get_irq_status w = (irq, w1) \<Longrightarrow> silent w w1"
  by (auto simp: get_irq_status_def split: prod.splits
      intro: silent_spi_read [of CMD_GET_IRQ_STATUS])

lemma silent_clear_irq [simp]: "silent w (spi_command CMD_CLEAR_IRQ_STATUS ps w)"
  by (simp add: silent_spi_command)

lemma silent_send_packet_loop: "send_packet_loop start w = (r, w') \<Longrightarrow> silent w w'"
proof (induction start w arbitrary: r w' rule: send_packet_loop.induct)
  case (1 start w)
  obtain irq w1 where g: "get_irq_status w = (irq, w1)"
    by (cases "get_irq_status w")
  note s1 = silent_get_irq_status [OF g]
  show ?case
  proof (cases "ticks_diff (ticks_ms w) start < 10000")
    case False
    then show ?thesis
      using "1.prems" by (subst (asm) send_packet_loop.simps) simp
  next
    case t: True
    show ?thesis
    proof (cases "irq AND IRQ_TX_DONE \<noteq> 0")
      case True
      then have "w' = spi_command CMD_CLEAR_IRQ_STATUS [0xFF, 0xFF] w1"
        using "1.prems" t g by (subst (asm) send_packet_loop.simps) auto
      then show ?thesis
        using s1 silent_clear_irq [of w1] by (blast intro: silent_trans)
    next
      case False
      then have "send_packet_loop start (sleep_ms 10 w1) = (r, w')"
        using "1.prems" t g by (subst (asm) send_packet_loop.simps) simp
      then have "silent (sleep_ms 10 w1) w'"
        using "1.IH" [OF t g [symmetric] False] by simp
      then show ?thesis
        using s1 silent_sleep_ms [of w1 10] by (blast intro: silent_trans)
    qed
  qed
qed

lemma same_env_send_packet: "send_packet data t w = (r, w') \<Longrightarrow> same_env w w'"
proof -
  assume h: "send_packet data t w = (r, w')"
  let ?w1 = "spi_command CMD_WRITE_BUFFER (0x00 # word_of_int t # data) w"
  let ?w2 = "spi_command CMD_CLEAR_IRQ_STATUS [0xFF, 0xFF] ?w1"
  let ?w3 = "spi_command CMD_SET_TX [0x00, 0x00, 0x00] ?w2"
  have "send_packet_loop (ticks_ms ?w3) ?w3 = (r, w')"
    using h by (simp add: send_packet_def Let_def)
  then have "same_env ?w3 w'"
    using silent_send_packet_loop by (simp add: silent_def)
  moreover have "same_env w ?w3"
    by (blast intro: same_env_trans same_env_spi_command)
  ultimately show ?thesis
    by (rule same_env_trans [rotated])
qed

lemma silent_cad_loop: "cad_loop start w = (r, w') \<Longrightarrow> silent w w'"
proof (induction start w arbitrary: r w' rule: cad_loop.induct)
  case (1 start w)
  obtain irq w1 where g: "get_irq_status w = (irq, w1)"
    by (cases "get_irq_status w")
  note s1 = silent_get_irq_status [OF g]
  show ?case
  proof (cases "ticks_diff (ticks_ms w) start < 100")
    case False
    then show ?thesis
      using "1.prems" by (subst (asm) cad_loop.simps) simp
  next
    case t: True
    show ?thesis
    proof (cases "irq AND IRQ_CAD_DONE \<noteq> 0")
      case True
      then have "w' = spi_command CMD_CLEAR_IRQ_STATUS [0xFF, 0xFF] w1"
        using "1.prems" t g by (subst (asm) cad_loop.simps) auto
      then show ?thesis
        using s1 silent_clear_irq [of w1] by (blast intro: silent_trans)
    next
      case False
      then have "cad_loop start (sleep_ms 1 w1) = (r, w')"
        using "1.prems" t g by (subst (asm) cad_loop.simps) simp
      then have "silent (sleep_ms 1 w1) w'"
        using "1.IH" [OF t g [symmetric] False] by simp
      then show ?thesis
        using s1 silent_sleep_ms [of w1 1] by (blast intro: silent_trans)
    qed
  qed
qed

lemma silent_cad: "cad w = (r, w') \<Longrightarrow> silent w w'"
proof -
  assume h: "cad w = (r, w')"
  let ?w1 = "spi_command CMD_CLEAR_IRQ_STATUS [0xFF, 0xFF] w"
  let ?w2 = "spi_command CMD_SET_CAD [] ?w1"
  have "cad_loop (ticks_ms ?w2) ?w2 = (r, w')"
    using h by (simp add: cad_def Let_def)
  then have "silent ?w2 w'"
    by (rule silent_cad_loop)
  moreover have "silent ?w1 ?w2"
    by (simp add: silent_spi_command)
  moreover have "silent w ?w1"
    by simp
  ultimately show ?thesis
    by (blast intro: silent_trans)
qed

lemma silent_start_rx [simp]: "silent w (start_rx timeout_ms w)"
proof -
  let ?w1 = "w\<lparr>rx_buffer := None, valid_header_detected := False\<rparr>"
  let ?w2 = "spi_command CMD_CLEAR_IRQ_STATUS [0xFF, 0xFF] ?w1"
  have a: "silent w ?w1"
    by (simp add: silent_def same_env_def)
  have b: "silent ?w1 ?w2"
    by simp
  have c: "silent ?w2 (start_rx timeout_ms w)"
    by (simp add: start_rx_def Let_def silent_spi_command)
  from a b c show ?thesis
    by (blast intro: silent_trans)
qed

lemma silent_rx_done: "rx_done w = (d, w1) \<Longrightarrow> silent w w1"
proof -
  assume h: "rx_done w = (d, w1)"
  obtain irq wa where g: "get_irq_status w = (irq, wa)"
    by (cases "get_irq_status w")
  have "silent wa w1"
    using h g by (auto simp: rx_done_def Let_def silent_def same_env_def split: if_splits)
  with silent_get_irq_status [OF g] show ?thesis
    by (rule silent_trans)
qed

lemma silent_read_packet: "read_packet w = (k, w1) \<Longrightarrow> silent w w1"
proof -
  assume rp: "read_packet w = (k, w1)"
  obtain sd wa where sr: "spi_read CMD_GET_RX_BUFFER_STATUS 2 w = (sd, wa)"
    by (cases "spi_read CMD_GET_RX_BUFFER_STATUS 2 w")
  have a: "silent w wa"
    using sr by (rule silent_spi_read [rotated 2]) simp_all
  show ?thesis
  proof (cases "sd ! 0 = 0")
    case True
    then show ?thesis
      using rp sr a by (simp add: read_packet_def)
  next
    case False
    obtain dt wb where tr:
      "spi_transfer [CMD_READ_BUFFER, sd ! 1, 0x00] (unat (sd ! 0)) (wait_busy wa) = (dt, wb)"
      by (cases "spi_transfer [CMD_READ_BUFFER, sd ! 1, 0x00] (unat (sd ! 0)) (wait_busy wa)")
    have b: "silent (wait_busy wa) wb"
      using tr by (rule silent_spi_transfer [rotated 2]) simp_all
    have "w1 = spi_command CMD_CLEAR_IRQ_STATUS [0xFF, 0xFF] wb"
      using rp sr tr False by (simp add: read_packet_def Let_def)
    then have c: "silent wb w1"
      by simp
    from a silent_wait_busy [of wa] b c show ?thesis
      by (blast intro: silent_trans)
  qed
qed

subsection \<open>Entering NAV and listening\<close>

lemma silent_randint: "randint a b w = (r, w1) \<Longrightarrow> silent w w1"
  by (auto simp: randint_def silent_def same_env_def split: if_splits)

lemma silent_prime_offset: "prime_offset w = (r, w1) \<Longrightarrow> silent w w1"
  by (auto simp: prime_offset_def split: prod.splits sum.splits dest: silent_randint)

lemma silent_random: "random w = (r, w1) \<Longrightarrow> silent w w1"
  by (auto simp: random_def silent_def same_env_def)

text \<open>The two counters of transmitted frames.\<close>

definition tx_counts :: "LoRaMAC \<Rightarrow> int \<times> int" where
  "tx_counts m = (tx_rts (mac_stats m), tx_data (mac_stats m))"

text \<open>
  \<open>nav_entered m m'\<close>: from \<open>m\<close> to \<open>m'\<close> one NAV entry was made and counted, and nothing
  else changed but the deadline.
\<close>

definition nav_entered :: "LoRaMAC \<Rightarrow> LoRaMAC \<Rightarrow> bool" where
  "nav_entered m m' =
     (m' = m\<lparr>consecutive_navs := consecutive_navs m + 1, nav_until := nav_until m',
             phase := PHASE_NAV,
             mac_stats := (mac_stats m)\<lparr>nav_count := nav_count (mac_stats m) + 1\<rparr>\<rparr>)"

lemma enter_nav_from_rts_effect:
  assumes "enter_nav_from_rts k m w = (r, m', w')"
  shows "silent w w'" and "isl r \<Longrightarrow> m' = m" and "\<not> isl r \<Longrightarrow> nav_entered m m'"
    and "inbox w' = inbox w"
proof -
  show "silent w w'"
    using assms unfolding enter_nav_from_rts_def Let_def
    by (auto split: sum.splits prod.splits dest!: silent_randint silent_prime_offset
        intro: silent_trans)
  show "isl r \<Longrightarrow> m' = m"
    using assms unfolding enter_nav_from_rts_def Let_def
    by (auto split: sum.splits prod.splits)
  show "\<not> isl r \<Longrightarrow> nav_entered m m'"
    using assms unfolding enter_nav_from_rts_def Let_def nav_entered_def
    by (auto split: sum.splits prod.splits)
  show "inbox w' = inbox w"
    using assms unfolding enter_nav_from_rts_def Let_def
    by (auto split: sum.splits prod.splits
        dest!: randint_range randint_error prime_offset_range prime_offset_error)
qed

lemma enter_nav_random_effect:
  assumes "enter_nav_random m w = (r, m', w')"
  shows "silent w w'" and "isl r \<Longrightarrow> m' = m" and "\<not> isl r \<Longrightarrow> nav_entered m m'"
    and "inbox w' = inbox w"
proof -
  show "silent w w'"
    using assms unfolding enter_nav_random_def Let_def
    by (auto split: sum.splits prod.splits dest!: silent_randint silent_prime_offset
        intro: silent_trans)
  show "isl r \<Longrightarrow> m' = m"
    using assms unfolding enter_nav_random_def Let_def
    by (auto split: sum.splits prod.splits)
  show "\<not> isl r \<Longrightarrow> nav_entered m m'"
    using assms unfolding enter_nav_random_def Let_def nav_entered_def
    by (auto split: sum.splits prod.splits)
  show "inbox w' = inbox w"
    using assms unfolding enter_nav_random_def Let_def
    by (auto split: sum.splits prod.splits
        dest!: randint_range randint_error prime_offset_range prime_offset_error)
qed

lemma defer_random_effect:
  assumes "defer_random m w = (r, m', w')"
  shows "silent w w'" and "isl r \<Longrightarrow> m' = m"
    and "\<not> isl r \<Longrightarrow>
           m' = m\<lparr>consecutive_navs := consecutive_navs m + 1, nav_until := nav_until m',
                   phase := PHASE_NAV\<rparr>"
proof -
  show "silent w w'"
    using assms unfolding defer_random_def Let_def
    by (auto split: sum.splits prod.splits dest!: silent_randint silent_prime_offset
        intro: silent_trans)
  show "isl r \<Longrightarrow> m' = m"
    using assms unfolding defer_random_def Let_def
    by (auto split: sum.splits prod.splits)
  show "\<not> isl r \<Longrightarrow>
           m' = m\<lparr>consecutive_navs := consecutive_navs m + 1, nav_until := nav_until m',
                   phase := PHASE_NAV\<rparr>"
    using assms unfolding defer_random_def Let_def
    by (auto split: sum.splits prod.splits)
qed

text \<open>
  \<open>heard m m'\<close>: from \<open>m\<close> to \<open>m'\<close> one frame (RTS or DATA) was received and counted, and
  the NAV was entered for it.
\<close>

definition heard :: "LoRaMAC \<Rightarrow> LoRaMAC \<Rightarrow> bool" where
  "heard m m' =
     (nav_entered (m\<lparr>mac_stats := (mac_stats m)\<lparr>rx_rts := rx_rts (mac_stats m) + 1\<rparr>\<rparr>) m' \<or>
      nav_entered (m\<lparr>mac_stats := (mac_stats m)\<lparr>rx_data := rx_data (mac_stats m) + 1\<rparr>\<rparr>) m')"

text \<open>
  What a listen window can do: run out with the MAC object untouched, or end the call with
  \<^verbatim>\<open>False\<close> after a heard frame (or with an exception); it never transmits and never
  answers \<^verbatim>\<open>True\<close>.
\<close>

definition listen_outcome :: "LoRaMAC \<Rightarrow> (error + bool) option \<Rightarrow> LoRaMAC \<Rightarrow> bool" where
  "listen_outcome m res m' =
     (case res of
        None \<Rightarrow> m' = m
      | Some (Inl e) \<Rightarrow> tx_counts m' = tx_counts m
      | Some (Inr b) \<Rightarrow> \<not> b \<and> heard m m')"

lemma listen_loop_effect:
  "listen_loop start poll idle m w = (res, m', w') \<Longrightarrow> silent w w' \<and> listen_outcome m res m'"
proof (induction start poll idle m w arbitrary: res m' w' rule: listen_loop.induct)
  case (1 start poll idle m w)
  note run = "1.prems"
  show ?case
  proof (cases "ticks_diff (ticks_ms w) start < phase1_duration m")
    case False
    then show ?thesis
      using run by (subst (asm) listen_loop.simps) (simp add: listen_outcome_def)
  next
    case t: True
    obtain d w1 where rx: "rx_done w = (d, w1)"
      by (cases "rx_done w")
    note s1 = silent_rx_done [OF rx]
    show ?thesis
    proof (cases d)
      case False
      define i1 where "i1 = idle + 1"
      define p1 where "p1 = (if i1 > 3 then 23 else poll)"
      define p2 where "p2 = (if i1 > 7 then 41 else p1)"
      have rxF: "(False, w1) = rx_done w"
        using rx False by simp
      have "listen_loop start p2 i1 m (sleep_ms p2 w1) = (res, m', w')"
        using run t rx False
        by (subst (asm) listen_loop.simps) (auto simp: Let_def i1_def p1_def p2_def split: if_splits)
      then have "silent (sleep_ms p2 w1) w' \<and> listen_outcome m res m'"
        using "1.IH"(2) [OF t rxF refl i1_def p1_def p2_def] by simp
      then show ?thesis
        using s1 silent_sleep_ms [of w1 p2] by (blast intro: silent_trans)
    next
      case True
      obtain pkt w2 where rp: "read_packet w1 = (pkt, w2)"
        by (cases "read_packet w1")
      note s2 = silent_read_packet [OF rp]
      have rxT: "(True, w1) = rx_done w"
        using rx True by simp
      show ?thesis
      proof (cases "pkt \<noteq> None \<and> pkt_type (the pkt) = PKT_TYPE_RTS")
        case rts: True
        define m1 where "m1 = m\<lparr>mac_stats := (mac_stats m)\<lparr>rx_rts := rx_rts (mac_stats m) + 1\<rparr>\<rparr>"
        obtain r2 m2 w3 where en: "enter_nav_from_rts (the pkt) m1 w2 = (r2, m2, w3)"
          by (cases "enter_nav_from_rts (the pkt) m1 w2")
        note ef = enter_nav_from_rts_effect [OF en]
        have res: "res = Some (case r2 of Inl e \<Rightarrow> Inl e | Inr u \<Rightarrow> Inr False)" "m' = m2" "w' = w3"
          using run t rx True rp rts en
          by (subst (asm) listen_loop.simps; simp add: Let_def m1_def split: sum.splits)+
        have "silent w w'"
          using s1 s2 ef(1) res(3) by (blast intro: silent_trans)
        moreover have "listen_outcome m res m'"
        proof (cases r2)
          case (Inl e)
          then show ?thesis
            using ef(2) res by (simp add: listen_outcome_def m1_def tx_counts_def)
        next
          case (Inr u)
          then show ?thesis
            using ef(3) res by (simp add: listen_outcome_def heard_def m1_def)
        qed
        ultimately show ?thesis by simp
      next
        case nrts: False
        show ?thesis
        proof (cases "pkt \<noteq> None \<and> pkt_type (the pkt) = PKT_TYPE_DATA")
          case dat: True
          define m1 where "m1 = m\<lparr>mac_stats := (mac_stats m)\<lparr>rx_data := rx_data (mac_stats m) + 1\<rparr>\<rparr>"
          define w2a where "w2a = (if on_receive_callback m1
                               then w2\<lparr>inbox := inbox w2 @
                                      [(payload (the pkt), rssi (the pkt), snr (the pkt))]\<rparr>
                               else w2)"
          have s2a: "silent w2 w2a"
            by (simp add: w2a_def silent_def same_env_def)
          obtain r2 m2 w3 where en: "enter_nav_random m1 w2a = (r2, m2, w3)"
            by (cases "enter_nav_random m1 w2a")
          note ef = enter_nav_random_effect [OF en]
          have res: "res = Some (case r2 of Inl e \<Rightarrow> Inl e | Inr u \<Rightarrow> Inr False)" "m' = m2" "w' = w3"
            using run t rx True rp nrts dat en
            by (subst (asm) listen_loop.simps; simp add: Let_def m1_def w2a_def split: sum.splits)+
          have "silent w w'"
            using s1 s2 s2a ef(1) res(3) by (blast intro: silent_trans)
          moreover have "listen_outcome m res m'"
          proof (cases r2)
            case (Inl e)
            then show ?thesis
              using ef(2) res by (simp add: listen_outcome_def m1_def tx_counts_def)
          next
            case (Inr u)
            then show ?thesis
              using ef(3) res by (simp add: listen_outcome_def heard_def m1_def)
          qed
          ultimately show ?thesis by simp
        next
          case ndat: False
          have "listen_loop start 11 0 m (sleep_ms 11 w2) = (res, m', w')"
            using run t rx True rp nrts ndat
            by (subst (asm) listen_loop.simps) (auto split: if_splits)
          then have "silent (sleep_ms 11 w2) w' \<and> listen_outcome m res m'"
            using "1.IH"(1) [OF t rxT refl rp [symmetric] nrts ndat] by simp
          then show ?thesis
            using s1 s2 silent_sleep_ms [of w2 11] by (blast intro: silent_trans)
        qed
      qed
    qed
  qed
qed

subsection \<open>The three phases\<close>

text \<open>The RTS payload that announces \<open>data\<close>, when \<^verbatim>\<open>bytearray\<close> accepts the length.\<close>

definition rts_payload :: "byte list \<Rightarrow> byte list" where
  "rts_payload data = [0xCA, 0xFE, 0xBA, 0xBE, word_of_int (int (length data))]"

lemma rts_bytes_Inr: "rts_bytes strict (int (length data)) = Inr p \<Longrightarrow> p = rts_payload data"
  by (auto simp: rts_bytes_def bytearray_def rts_payload_def split: if_splits)

lemma heard_fields:
  assumes "heard a b"
  shows "tx_counts b = tx_counts a"
    and "rx_rts (mac_stats b) + rx_data (mac_stats b)
           = rx_rts (mac_stats a) + rx_data (mac_stats a) + 1"
    and "nav_count (mac_stats b) = nav_count (mac_stats a) + 1"
    and "backoff_count (mac_stats b) = backoff_count (mac_stats a)"
    and "consecutive_navs b = consecutive_navs a + 1"
    and "phase b = PHASE_NAV"
proof -
  from assms obtain t where
    "b = a\<lparr>mac_stats := (mac_stats a)\<lparr>rx_rts := rx_rts (mac_stats a) + 1\<rparr>\<rparr>
             \<lparr>consecutive_navs := consecutive_navs a + 1, nav_until := t,
              phase := PHASE_NAV,
              mac_stats := (mac_stats a)\<lparr>rx_rts := rx_rts (mac_stats a) + 1\<rparr>
                \<lparr>nav_count := nav_count (mac_stats a) + 1\<rparr>\<rparr> \<or>
     b = a\<lparr>mac_stats := (mac_stats a)\<lparr>rx_data := rx_data (mac_stats a) + 1\<rparr>\<rparr>
             \<lparr>consecutive_navs := consecutive_navs a + 1, nav_until := t,
              phase := PHASE_NAV,
              mac_stats := (mac_stats a)\<lparr>rx_data := rx_data (mac_stats a) + 1\<rparr>
                \<lparr>nav_count := nav_count (mac_stats a) + 1\<rparr>\<rparr>"
    by (auto simp: heard_def nav_entered_def)
  then have "tx_counts b = tx_counts a \<and>
      rx_rts (mac_stats b) + rx_data (mac_stats b)
           = rx_rts (mac_stats a) + rx_data (mac_stats a) + 1 \<and>
      nav_count (mac_stats b) = nav_count (mac_stats a) + 1 \<and>
      backoff_count (mac_stats b) = backoff_count (mac_stats a) \<and>
      consecutive_navs b = consecutive_navs a + 1 \<and> phase b = PHASE_NAV"
    by (auto simp: tx_counts_def)
  then show "tx_counts b = tx_counts a"
    and "rx_rts (mac_stats b) + rx_data (mac_stats b)
           = rx_rts (mac_stats a) + rx_data (mac_stats a) + 1"
    and "nav_count (mac_stats b) = nav_count (mac_stats a) + 1"
    and "backoff_count (mac_stats b) = backoff_count (mac_stats a)"
    and "consecutive_navs b = consecutive_navs a + 1"
    and "phase b = PHASE_NAV"
    by simp_all
qed

text \<open>
  Phase 3 never answers \<^verbatim>\<open>False\<close>: it raises before the backoff (an empty range of
  slots), or it hands the DATA frame to the transmitter, counts it, clears
  \<^verbatim>\<open>consecutive_navs\<close> and answers \<^verbatim>\<open>True\<close>, whatever \<^verbatim>\<open>send_packet\<close> returned.
\<close>

lemma phase3_effect:
  assumes run: "phase3_send_data data m w = (r, m', w')"
  shows "same_env w w'"
    and "r \<noteq> Inr False"
    and "r = Inr True \<Longrightarrow>
           consecutive_navs m' = 0 \<and> phase m' = PHASE_IDLE \<and>
           tx_view (bus w') = tx_view (bus w) @ emission PKT_TYPE_DATA data \<and>
           tx_counts m' = (tx_rts (mac_stats m), tx_data (mac_stats m) + 1) \<and>
           backoff_count (mac_stats m') = backoff_count (mac_stats m) + 1"
    and "isl r \<Longrightarrow> tx_view (bus w') = tx_view (bus w) \<and> tx_counts m' = tx_counts m"
    and "0 \<le> mac_w m \<Longrightarrow> r = Inr True"
proof -
  define m1 where "m1 = m\<lparr>phase := PHASE_3_DATA\<rparr>"
  obtain r1 w1 where a1: "randint 0 (mac_w m1) w = (r1, w1)"
    by (cases "randint 0 (mac_w m1) w")
  note s1 = silent_randint [OF a1]
  have all: "same_env w w' \<and> r \<noteq> Inr False \<and>
      (r = Inr True \<longrightarrow>
           consecutive_navs m' = 0 \<and> phase m' = PHASE_IDLE \<and>
           tx_view (bus w') = tx_view (bus w) @ emission PKT_TYPE_DATA data \<and>
           tx_counts m' = (tx_rts (mac_stats m), tx_data (mac_stats m) + 1) \<and>
           backoff_count (mac_stats m') = backoff_count (mac_stats m) + 1) \<and>
      (isl r \<longrightarrow> tx_view (bus w') = tx_view (bus w) \<and> tx_counts m' = tx_counts m) \<and>
      (0 \<le> mac_w m \<longrightarrow> r = Inr True)"
  proof (cases r1)
    case (Inl e)
    then have "r = Inl e" "m' = m1" "w' = w1"
      using run a1 by (simp_all add: phase3_send_data_def Let_def m1_def)
    moreover have "\<not> 0 \<le> mac_w m"
      using a1 Inl by (auto simp: randint_def m1_def split: if_splits)
    ultimately show ?thesis
      using s1 by (simp add: silent_def m1_def tx_counts_def)
  next
    case r1: (Inr slots)
    obtain r2 w2 where a2: "prime_offset w1 = (r2, w2)"
      by (cases "prime_offset w1")
    note s2 = silent_prime_offset [OF a2]
    show ?thesis
    proof (cases r2)
      case (Inl e)
      then have "r = Inl e" "m' = m1" "w' = w2"
        using run a1 r1 a2 by (simp_all add: phase3_send_data_def Let_def m1_def)
      moreover have False
        using a2 Inl a1
        by (auto simp: prime_offset_def py_index_def PRIME_OFFSETS_def
            split: prod.splits sum.splits if_splits dest!: randint_range randint_error
            simp: randint_def)
      ultimately show ?thesis by simp
    next
      case r2: (Inr po)
      define w3 where "w3 = sleep_ms (slots * difs m1 + po) w2"
      define m2 where "m2 = m1\<lparr>mac_stats := (mac_stats m1)
                                  \<lparr>backoff_count := backoff_count (mac_stats m1) + 1\<rparr>\<rparr>"
      obtain sent w4 where a3: "send_packet data PKT_TYPE_DATA w3 = (sent, w4)"
        by (cases "send_packet data PKT_TYPE_DATA w3")
      have res: "r = Inr True" "w' = w4"
        "m' = m2\<lparr>mac_stats := (mac_stats m2)\<lparr>tx_data := tx_data (mac_stats m2) + 1\<rparr>,
                 consecutive_navs := 0, phase := PHASE_IDLE\<rparr>"
        using run a1 r1 a2 r2 a3
        by (simp_all add: phase3_send_data_def Let_def m1_def m2_def w3_def)
      have "silent w w3"
        using s1 s2 silent_sleep_ms [of w2] unfolding w3_def by (blast intro: silent_trans)
      then have "same_env w w4" "tx_view (bus w4) = tx_view (bus w) @ emission PKT_TYPE_DATA data"
        using same_env_send_packet [OF a3] tx_send_packet [OF a3]
        by (auto simp: silent_def intro: same_env_trans)
      then show ?thesis
        by (simp add: res m2_def m1_def tx_counts_def)
    qed
  qed
  from all show "same_env w w'" and "r \<noteq> Inr False"
    and "r = Inr True \<Longrightarrow>
           consecutive_navs m' = 0 \<and> phase m' = PHASE_IDLE \<and>
           tx_view (bus w') = tx_view (bus w) @ emission PKT_TYPE_DATA data \<and>
           tx_counts m' = (tx_rts (mac_stats m), tx_data (mac_stats m) + 1) \<and>
           backoff_count (mac_stats m') = backoff_count (mac_stats m) + 1"
    and "isl r \<Longrightarrow> tx_view (bus w') = tx_view (bus w) \<and> tx_counts m' = tx_counts m"
    and "0 \<le> mac_w m \<Longrightarrow> r = Inr True"
    by blast+
qed

text \<open>
  The two ways a call can end after Phase 2 was entered, as seen from outside: both
  frames handed to the transmitter and counted (\<open>sent_outcome\<close>), or the RTS alone, then a
  frame heard in the listen window and the NAV entered (\<open>rts_then_heard\<close>).
\<close>

definition sent_outcome :: "byte list \<Rightarrow> LoRaMAC \<Rightarrow> world \<Rightarrow> LoRaMAC \<Rightarrow> world \<Rightarrow> bool" where
  "sent_outcome data m w m' w' =
     (consecutive_navs m' = 0 \<and> phase m' = PHASE_IDLE \<and>
      tx_view (bus w') = tx_view (bus w) @ emission PKT_TYPE_RTS (rts_payload data)
                           @ emission PKT_TYPE_DATA data \<and>
      tx_counts m' = (tx_rts (mac_stats m) + 1, tx_data (mac_stats m) + 1))"

definition rts_then_heard :: "byte list \<Rightarrow> LoRaMAC \<Rightarrow> world \<Rightarrow> LoRaMAC \<Rightarrow> world \<Rightarrow> bool" where
  "rts_then_heard data m w m' w' =
     (tx_view (bus w') = tx_view (bus w) @ emission PKT_TYPE_RTS (rts_payload data) \<and>
      tx_counts m' = (tx_rts (mac_stats m) + 1, tx_data (mac_stats m)) \<and>
      rx_rts (mac_stats m') + rx_data (mac_stats m')
        = rx_rts (mac_stats m) + rx_data (mac_stats m) + 1 \<and>
      nav_count (mac_stats m') = nav_count (mac_stats m) + 1 \<and>
      consecutive_navs m' = consecutive_navs m + 1 \<and> phase m' = PHASE_NAV)"

lemma phase2_effect:
  assumes run: "phase2_send_rts data m w = (r, m', w')"
  shows "same_env w w'"
    and "r = Inr True \<Longrightarrow> sent_outcome data m w m' w'"
    and "r = Inr False \<Longrightarrow> rts_then_heard data m w m' w'"
proof -
  define m1 where "m1 = m\<lparr>phase := PHASE_2_RTS\<rparr>"
  obtain r1 w1 where a1: "randint 0 (mac_w m1) w = (r1, w1)"
    by (cases "randint 0 (mac_w m1) w")
  note s1 = silent_randint [OF a1]
  have all: "same_env w w' \<and> (r = Inr True \<longrightarrow> sent_outcome data m w m' w') \<and>
             (r = Inr False \<longrightarrow> rts_then_heard data m w m' w')"
  proof (cases r1)
    case (Inl e)
    then have "r = Inl e" "w' = w1"
      using run a1 by (simp_all add: phase2_send_rts_def Let_def m1_def)
    then show ?thesis
      using s1 by (simp add: silent_def)
  next
    case r1: (Inr slots)
    obtain r2 w2 where a2: "prime_offset w1 = (r2, w2)"
      by (cases "prime_offset w1")
    note s2 = silent_prime_offset [OF a2]
    show ?thesis
    proof (cases r2)
      case (Inl e)
      then have "r = Inl e" "w' = w2"
        using run a1 r1 a2 by (simp_all add: phase2_send_rts_def Let_def m1_def)
      then show ?thesis
        using s1 s2 by (auto simp: silent_def intro: same_env_trans)
    next
      case r2: (Inr po)
      define w3 where "w3 = sleep_ms (slots * difs m1 + po) w2"
      define m2 where "m2 = m1\<lparr>mac_stats := (mac_stats m1)
                                  \<lparr>backoff_count := backoff_count (mac_stats m1) + 1\<rparr>\<rparr>"
      have s3: "silent w w3"
        using s1 s2 silent_sleep_ms [of w2] unfolding w3_def by (blast intro: silent_trans)
      show ?thesis
      proof (cases "rts_bytes (strict_bytes w3) (int (length data))")
        case (Inl e)
        then have "r = Inl e" "w' = w3"
          using run a1 r1 a2 r2
          by (simp_all add: phase2_send_rts_def Let_def m1_def m2_def w3_def)
        then show ?thesis
          using s3 by (simp add: silent_def)
      next
        case (Inr rts_packet)
        then have rp: "rts_bytes (strict_bytes w3) (int (length data)) = Inr (rts_payload data)"
          using rts_bytes_Inr by blast
        obtain sent w4 where a3: "send_packet (rts_payload data) PKT_TYPE_RTS w3 = (sent, w4)"
          by (cases "send_packet (rts_payload data) PKT_TYPE_RTS w3")
        define m3 where "m3 = m2\<lparr>mac_stats := (mac_stats m2)
                                     \<lparr>tx_rts := tx_rts (mac_stats m2) + 1\<rparr>\<rparr>"
        define w5 where "w5 = start_rx (phase1_duration m3) w4"
        obtain res m4 w6 where a4: "listen_loop (ticks_ms w5) 11 0 m3 w5 = (res, m4, w6)"
          by (cases "listen_loop (ticks_ms w5) 11 0 m3 w5") auto
        note le = listen_loop_effect [OF a4]
        have e4: "same_env w w4"
          "tx_view (bus w4) = tx_view (bus w) @ emission PKT_TYPE_RTS (rts_payload data)"
          using s3 same_env_send_packet [OF a3] tx_send_packet [OF a3]
          by (auto simp: silent_def intro: same_env_trans)
        have "silent w4 w6"
          using silent_start_rx [of w4 "phase1_duration m3"] le unfolding w5_def
          by (blast intro: silent_trans)
        with e4 have e6: "same_env w w6"
          "tx_view (bus w6) = tx_view (bus w) @ emission PKT_TYPE_RTS (rts_payload data)"
          by (auto simp: silent_def intro: same_env_trans)
        have c3: "tx_counts m3 = (tx_rts (mac_stats m) + 1, tx_data (mac_stats m))"
          "rx_rts (mac_stats m3) = rx_rts (mac_stats m)"
          "rx_data (mac_stats m3) = rx_data (mac_stats m)"
          "nav_count (mac_stats m3) = nav_count (mac_stats m)"
          "consecutive_navs m3 = consecutive_navs m" "mac_w m3 = mac_w m"
          by (simp_all add: m3_def m2_def m1_def tx_counts_def)
        have body: "(r, m', w') =
            (case res of Some r' \<Rightarrow> (r', m4, w6)
                       | None \<Rightarrow> phase3_send_data data m4 w6)"
          using run a1 r1 a2 r2 rp a3 a4
          by (simp add: phase2_send_rts_def Let_def m1_def m2_def w3_def m3_def w5_def
              split: option.splits)
        show ?thesis
        proof (cases res)
          case None
          then have m4: "m4 = m3"
            using le by (simp add: listen_outcome_def)
          have p3: "phase3_send_data data m3 w6 = (r, m', w')"
            using body None m4 by simp
          note pe = phase3_effect [OF p3]
          have "same_env w w'"
            using e6(1) pe(1) by (rule same_env_trans)
          moreover have "r \<noteq> Inr False"
            using pe(2) .
          moreover have "r = Inr True \<longrightarrow> sent_outcome data m w m' w'"
            using pe(3) e6(2) c3 by (auto simp: sent_outcome_def tx_counts_def)
          ultimately show ?thesis by simp
        next
          case (Some r')
          then have res': "r = r'" "m' = m4" "w' = w6"
            using body by simp_all
          have lo: "listen_outcome m3 (Some r) m'"
            using le Some res' by simp
          have "r \<noteq> Inr True"
            using lo by (auto simp: listen_outcome_def)
          moreover have "r = Inr False \<longrightarrow> rts_then_heard data m w m' w'"
          proof
            assume "r = Inr False"
            then have "heard m3 m'"
              using lo by (simp add: listen_outcome_def)
            from heard_fields [OF this] show "rts_then_heard data m w m' w'"
              using e6(2) c3 res'(3) by (simp add: rts_then_heard_def)
          qed
          ultimately show ?thesis
            using e6(1) res'(3) by simp
        qed
      qed
    qed
  qed
  from all show "same_env w w'"
    and "r = Inr True \<Longrightarrow> sent_outcome data m w m' w'"
    and "r = Inr False \<Longrightarrow> rts_then_heard data m w m' w'"
    by blast+
qed

lemma phase1_effect:
  assumes run: "phase1_listen_rts data m w = (r, m', w')"
  shows "same_env w w'"
    and "r = Inr True \<Longrightarrow> sent_outcome data m w m' w'"
    and "r = Inr False \<Longrightarrow>
           rts_then_heard data m w m' w' \<or>
           (tx_view (bus w') = tx_view (bus w) \<and> heard (m\<lparr>phase := PHASE_1_LISTEN\<rparr>) m')"
proof -
  define m1 where "m1 = m\<lparr>phase := PHASE_1_LISTEN\<rparr>"
  define w1 where "w1 = start_rx (phase1_duration m1) w"
  obtain res m2 w2 where a: "listen_loop (ticks_ms w1) 11 0 m1 w1 = (res, m2, w2)"
    by (cases "listen_loop (ticks_ms w1) 11 0 m1 w1") auto
  note le = listen_loop_effect [OF a]
  have s2: "silent w w2"
    using silent_start_rx [of w "phase1_duration m1"] le unfolding w1_def
    by (blast intro: silent_trans)
  have body: "(r, m', w') =
      (case res of Some r' \<Rightarrow> (r', m2, w2) | None \<Rightarrow> phase2_send_rts data m2 w2)"
    using run a by (simp add: phase1_listen_rts_def Let_def m1_def w1_def split: option.splits)
  have all: "same_env w w' \<and> (r = Inr True \<longrightarrow> sent_outcome data m w m' w') \<and>
      (r = Inr False \<longrightarrow> rts_then_heard data m w m' w' \<or>
           (tx_view (bus w') = tx_view (bus w) \<and> heard m1 m'))"
  proof (cases res)
    case None
    then have m2: "m2 = m1"
      using le by (simp add: listen_outcome_def)
    have p2: "phase2_send_rts data m1 w2 = (r, m', w')"
      using body None m2 by simp
    note pe = phase2_effect [OF p2]
    have "same_env w w'"
      using s2 pe(1) by (auto simp: silent_def intro: same_env_trans)
    moreover have "r = Inr True \<longrightarrow> sent_outcome data m w m' w'"
      using pe(2) s2 by (auto simp: sent_outcome_def silent_def m1_def)
    moreover have "r = Inr False \<longrightarrow> rts_then_heard data m w m' w'"
      using pe(3) s2 by (auto simp: rts_then_heard_def silent_def m1_def)
    ultimately show ?thesis by simp
  next
    case (Some r')
    then have res': "r = r'" "m' = m2" "w' = w2"
      using body by simp_all
    have lo: "listen_outcome m1 (Some r) m'"
      using le Some res' by simp
    then have "r \<noteq> Inr True" "r = Inr False \<longrightarrow> heard m1 m'"
      by (auto simp: listen_outcome_def)
    then show ?thesis
      using s2 res'(3) by (auto simp: silent_def)
  qed
  from all show "same_env w w'"
    and "r = Inr True \<Longrightarrow> sent_outcome data m w m' w'"
    and "r = Inr False \<Longrightarrow>
           rts_then_heard data m w m' w' \<or>
           (tx_view (bus w') = tx_view (bus w) \<and> heard (m\<lparr>phase := PHASE_1_LISTEN\<rparr>) m')"
    unfolding m1_def by blast+
qed

text \<open>
  A call of \<^verbatim>\<open>send_data\<close> that answers \<^verbatim>\<open>True\<close> went through Phase 2 and Phase 3.
\<close>

lemma send_data_sent:
  assumes run: "send_data data priority m w = (Inr True, m', w')"
  shows "sent_outcome data m w m' w'"
proof -
  have nn: "\<not> in_nav m w"
    using run by (auto simp: send_data_def)
  obtain busy w1 where c: "(if use_cad (config m) then cad w else (False, w)) = (busy, w1)"
    by (cases "if use_cad (config m) then cad w else (False, w)")
  have s1: "silent w w1"
    using c by (auto split: if_splits dest: silent_cad)
  have nb: "\<not> busy"
  proof
    assume busy
    then show False
      using run nn c by (auto simp: send_data_def Let_def split: prod.splits sum.splits)
  qed
  show ?thesis
  proof (cases "priority = ''high''")
    case True
    then have "phase2_send_rts data m w1 = (Inr True, m', w')"
      using run nn c nb by (simp add: send_data_def)
    from phase2_effect(2) [OF this] s1 show ?thesis
      by (simp add: sent_outcome_def silent_def)
  next
    case False
    obtain x w2 where rnd: "random w1 = (x, w2)"
      by (cases "random w1")
    have s2: "silent w w2"
      using s1 silent_random [OF rnd] by (rule silent_trans)
    have "(if x < mac_p m then phase2_send_rts data m w2 else phase1_listen_rts data m w2)
            = (Inr True, m', w')"
      using run nn c nb False rnd by (simp add: send_data_def)
    then have "sent_outcome data m w2 m' w'"
      using phase2_effect(2) phase1_effect(2) by (auto split: if_splits)
    then show ?thesis
      using s2 by (simp add: sent_outcome_def silent_def)
  qed
qed

subsection \<open>A channel on which nothing arrives, a transmitter that never finishes\<close>

text \<open>
  The interrupt status is the 16-bit value of the two bytes of one SPI read; TxDone is
  bit 0 and RxDone bit 1 of the second byte. \<open>no_rx_done w\<close>: no status read of \<open>w\<close> will
  ever show RxDone. \<open>no_tx_done w\<close>: none will ever show TxDone.
\<close>

definition no_rx_done :: "world \<Rightarrow> bool" where
  "no_rx_done w = (\<forall>k. \<not> bit (miso w k 1) 1)"


lemma no_rx_done_same_env: "same_env w w' \<Longrightarrow> no_rx_done w' = no_rx_done w"
  by (simp add: same_env_def no_rx_done_def)


lemma irq_bits:
  "n < 8 \<Longrightarrow> bit (push_bit 8 (uint (a :: byte)) OR uint (b :: byte)) n = bit b n"
  by (simp add: bit_or_iff bit_push_bit_iff bit_uint_iff)


lemma int_and_2: "((x::int) AND 2 \<noteq> 0) = bit x 1"
  using and_exp_eq_0_iff_not_bit [of x 1] by simp

lemma get_irq_status_value:
  "get_irq_status w = (irq, w1) \<Longrightarrow>
     \<exists>k. irq = push_bit 8 (uint (miso w k 0)) OR uint (miso w k 1)"
proof -
  assume g: "get_irq_status w = (irq, w1)"
  have "miso (wait_busy w) = miso w"
    using silent_wait_busy [of w] by (simp add: silent_def same_env_def)
  moreover have "[0..<2] = [0, Suc 0]"
    by (simp add: upt_rec numeral_2_eq_2)
  ultimately have "irq = push_bit 8 (uint (miso w (spi_reads (wait_busy w)) 0))
                         OR uint (miso w (spi_reads (wait_busy w)) 1)"
    using g by (auto simp: get_irq_status_def spi_read_def spi_transfer_def)
  then show ?thesis ..
qed

lemma rx_done_quiet: "no_rx_done w \<Longrightarrow> rx_done w = (d, w1) \<Longrightarrow> \<not> d"
proof -
  assume q: "no_rx_done w" and r: "rx_done w = (d, w1)"
  obtain irq wa where g: "get_irq_status w = (irq, wa)"
    by (cases "get_irq_status w")
  from get_irq_status_value [OF g] obtain k where
    "irq = push_bit 8 (uint (miso w k 0)) OR uint (miso w k 1)" ..
  then have "\<not> bit irq 1"
    using q by (simp add: irq_bits no_rx_done_def)
  then have "irq AND IRQ_RX_DONE = 0"
    using int_and_2 [of irq] by (simp add: IRQ_RX_DONE_def)
  then show ?thesis
    using r g by (auto simp: rx_done_def Let_def)
qed



text \<open>With no RxDone in sight, a listen window runs out and changes nothing in the MAC.\<close>

lemma listen_loop_quiet:
  "no_rx_done w \<Longrightarrow> \<exists>w'. listen_loop start poll idle m w = (None, m, w') \<and> silent w w'"
proof (induction start poll idle m w rule: listen_loop.induct)
  case (1 start poll idle m w)
  note q = "1.prems"
  show ?case
  proof (cases "ticks_diff (ticks_ms w) start < phase1_duration m")
    case False
    then show ?thesis
      by (subst listen_loop.simps) simp
  next
    case t: True
    obtain d w1 where rx: "rx_done w = (d, w1)"
      by (cases "rx_done w")
    have d: "\<not> d"
      using rx_done_quiet [OF q rx] .
    note s1 = silent_rx_done [OF rx]
    define i1 where "i1 = idle + 1"
    define p1 where "p1 = (if i1 > 3 then 23 else poll)"
    define p2 where "p2 = (if i1 > 7 then 41 else p1)"
    have rxF: "(False, w1) = rx_done w"
      using rx d by simp
    have s2: "silent w (sleep_ms p2 w1)"
      using s1 silent_sleep_ms [of w1 p2] by (rule silent_trans)
    then have "no_rx_done (sleep_ms p2 w1)"
      using q no_rx_done_same_env by (auto simp: silent_def)
    from "1.IH"(2) [OF t rxF refl i1_def p1_def p2_def this]
    obtain w' where rec: "listen_loop start p2 i1 m (sleep_ms p2 w1) = (None, m, w')"
      and s3: "silent (sleep_ms p2 w1) w'"
      by blast
    have "listen_loop start poll idle m w = listen_loop start p2 i1 m (sleep_ms p2 w1)"
      using t rx d by (subst listen_loop.simps) (simp add: Let_def i1_def p1_def p2_def)
    then show ?thesis
      using rec s2 s3 by (auto intro: silent_trans)
  qed
qed

lemma randint_ok: "a \<le> b \<Longrightarrow> \<exists>r w1. randint a b w = (Inr r, w1)"
  by (simp add: randint_def)

lemma prime_offset_ok: "\<exists>po w1. prime_offset w = (Inr po, w1)"
proof -
  obtain i w1 where r: "randint 0 (int (length PRIME_OFFSETS) - 1) w = (Inr i, w1)"
    using randint_ok [of 0 "int (length PRIME_OFFSETS) - 1" w] by (auto simp: PRIME_OFFSETS_def)
  from randint_range [OF r] have "0 \<le> i \<and> i < int (length PRIME_OFFSETS)"
    by simp
  then show ?thesis
    using r by (simp add: prime_offset_def py_index_def)
qed

lemma rts_bytes_cases:
  "rts_bytes strict (int (length data)) =
     (if strict \<and> 255 < length data then Inl ValueError else Inr (rts_payload data))"
  by (simp add: rts_bytes_def bytearray_def rts_payload_def)

text \<open>
  Phase 2 on a quiet channel, with a non-empty range of backoff slots: the backoff is
  slept and counted first; then either \<^verbatim>\<open>bytearray\<close> refuses the length, or the RTS goes
  out, the listen window runs out and Phase 3 answers \<^verbatim>\<open>True\<close>.
\<close>

lemma phase2_quiet:
  assumes q: "no_rx_done w" and W: "0 \<le> mac_w m"
    and run: "phase2_send_rts data m w = (r, m', w')"
  shows "strict_bytes w \<and> 255 < length data \<Longrightarrow>
           r = Inl ValueError \<and> tx_view (bus w') = tx_view (bus w) \<and>
           tx_counts m' = tx_counts m \<and> phase m' = PHASE_2_RTS \<and>
           backoff_count (mac_stats m') = backoff_count (mac_stats m) + 1"
    and "\<not> (strict_bytes w \<and> 255 < length data) \<Longrightarrow>
           r = Inr True \<and> backoff_count (mac_stats m') = backoff_count (mac_stats m) + 2"
proof -
  define m1 where "m1 = m\<lparr>phase := PHASE_2_RTS\<rparr>"
  obtain slots w1 where a1: "randint 0 (mac_w m1) w = (Inr slots, w1)"
    using randint_ok [of 0 "mac_w m1" w] W by (auto simp: m1_def)
  obtain po w2 where a2: "prime_offset w1 = (Inr po, w2)"
    using prime_offset_ok [of w1] by blast
  define w3 where "w3 = sleep_ms (slots * difs m1 + po) w2"
  define m2 where "m2 = m1\<lparr>mac_stats := (mac_stats m1)
                              \<lparr>backoff_count := backoff_count (mac_stats m1) + 1\<rparr>\<rparr>"
  have s3: "silent w w3"
    using silent_randint [OF a1] silent_prime_offset [OF a2] silent_sleep_ms [of w2]
    unfolding w3_def by (blast intro: silent_trans)
  then have st: "strict_bytes w3 = strict_bytes w"
    by (simp add: silent_def same_env_def)
  have all: "(strict_bytes w \<and> 255 < length data \<longrightarrow>
           r = Inl ValueError \<and> tx_view (bus w') = tx_view (bus w) \<and>
           tx_counts m' = tx_counts m \<and> phase m' = PHASE_2_RTS \<and>
           backoff_count (mac_stats m') = backoff_count (mac_stats m) + 1) \<and>
        (\<not> (strict_bytes w \<and> 255 < length data) \<longrightarrow>
           r = Inr True \<and> backoff_count (mac_stats m') = backoff_count (mac_stats m) + 2)"
  proof (cases "strict_bytes w \<and> 255 < length data")
    case True
    then have "rts_bytes (strict_bytes w3) (int (length data)) = Inl ValueError"
      using st by (simp add: rts_bytes_cases)
    then have "r = Inl ValueError" "m' = m2" "w' = w3"
      using run a1 a2 by (simp_all add: phase2_send_rts_def Let_def m1_def m2_def w3_def)
    then show ?thesis
      using True s3 by (simp add: silent_def m2_def m1_def tx_counts_def)
  next
    case False
    then have rp: "rts_bytes (strict_bytes w3) (int (length data)) = Inr (rts_payload data)"
      using st by (simp add: rts_bytes_cases)
    obtain sent w4 where a3: "send_packet (rts_payload data) PKT_TYPE_RTS w3 = (sent, w4)"
      by (cases "send_packet (rts_payload data) PKT_TYPE_RTS w3")
    define m3 where "m3 = m2\<lparr>mac_stats := (mac_stats m2)
                                 \<lparr>tx_rts := tx_rts (mac_stats m2) + 1\<rparr>\<rparr>"
    define w5 where "w5 = start_rx (phase1_duration m3) w4"
    have "same_env w w5"
      using s3 same_env_send_packet [OF a3] silent_start_rx [of w4 "phase1_duration m3"]
      unfolding w5_def by (auto simp: silent_def intro: same_env_trans)
    then have "no_rx_done w5"
      using q no_rx_done_same_env by blast
    from listen_loop_quiet [OF this, of "ticks_ms w5" 11 0 m3]
    obtain w6 where a4: "listen_loop (ticks_ms w5) 11 0 m3 w5 = (None, m3, w6)"
      by blast
    have p3: "phase3_send_data data m3 w6 = (r, m', w')"
      using run a1 a2 rp a3 a4
      by (simp add: phase2_send_rts_def Let_def m1_def m2_def w3_def m3_def w5_def)
    have "0 \<le> mac_w m3"
      using W by (simp add: m3_def m2_def m1_def)
    from phase3_effect(5) [OF p3 this] phase3_effect(3) [OF p3]
    have "r = Inr True" "backoff_count (mac_stats m') = backoff_count (mac_stats m3) + 1"
      by simp_all
    then show ?thesis
      using False by (simp add: m3_def m2_def m1_def)
  qed
  from all show "strict_bytes w \<and> 255 < length data \<Longrightarrow>
           r = Inl ValueError \<and> tx_view (bus w') = tx_view (bus w) \<and>
           tx_counts m' = tx_counts m \<and> phase m' = PHASE_2_RTS \<and>
           backoff_count (mac_stats m') = backoff_count (mac_stats m) + 1"
    and "\<not> (strict_bytes w \<and> 255 < length data) \<Longrightarrow>
           r = Inr True \<and> backoff_count (mac_stats m') = backoff_count (mac_stats m) + 2"
    by blast+
qed

text \<open>
  The whole call on a quiet channel, outside NAV and without a CAD hit: whichever way the
  coin falls, it comes to Phase 2 with the MAC's counters untouched.
\<close>

lemma send_data_quiet:
  assumes q: "no_rx_done w" and W: "0 \<le> mac_w m" and nn: "\<not> in_nav m w"
    and nc: "use_cad (config m) \<longrightarrow> \<not> fst (cad w)"
    and run: "send_data data priority m w = (r, m', w')"
  shows "strict_bytes w \<and> 255 < length data \<Longrightarrow>
           r = Inl ValueError \<and> tx_view (bus w') = tx_view (bus w) \<and>
           tx_counts m' = tx_counts m \<and> phase m' = PHASE_2_RTS \<and>
           backoff_count (mac_stats m') = backoff_count (mac_stats m) + 1"
    and "\<not> (strict_bytes w \<and> 255 < length data) \<Longrightarrow>
           r = Inr True \<and> backoff_count (mac_stats m') = backoff_count (mac_stats m) + 2"
proof -
  obtain busy w1 where c: "(if use_cad (config m) then cad w else (False, w)) = (busy, w1)"
    by (cases "if use_cad (config m) then cad w else (False, w)")
  have s1: "silent w w1"
    using c by (auto split: if_splits dest: silent_cad)
  have nb: "\<not> busy"
    using c nc by (auto split: if_splits)
  obtain x w2 where rnd: "random w1 = (x, w2)"
    by (cases "random w1")
  have s2: "silent w w2"
    using s1 silent_random [OF rnd] by (rule silent_trans)
  define m1 where "m1 = m\<lparr>phase := PHASE_1_LISTEN\<rparr>"
  define w3 where "w3 = start_rx (phase1_duration m1) w2"
  have s3: "silent w w3"
    using s2 silent_start_rx [of w2 "phase1_duration m1"] unfolding w3_def
    by (rule silent_trans)
  then have "no_rx_done w3"
    using q no_rx_done_same_env by (auto simp: silent_def)
  from listen_loop_quiet [OF this, of "ticks_ms w3" 11 0 m1]
  obtain w4 where ll: "listen_loop (ticks_ms w3) 11 0 m1 w3 = (None, m1, w4)"
    and s4: "silent w3 w4"
    by blast
  have s4': "silent w w4"
    using s3 s4 by (rule silent_trans)
  have p1: "phase1_listen_rts data m w2 = phase2_send_rts data m1 w4"
    using ll by (simp add: phase1_listen_rts_def Let_def m1_def w3_def)
  have "\<exists>ma wa. phase2_send_rts data ma wa = (r, m', w') \<and> silent w wa \<and>
          mac_w ma = mac_w m \<and> mac_stats ma = mac_stats m"
  proof (cases "priority = ''high''")
    case True
    then have "phase2_send_rts data m w1 = (r, m', w')"
      using run nn c nb by (simp add: send_data_def)
    then show ?thesis
      using s1 by blast
  next
    case False
    then have "(if x < mac_p m then phase2_send_rts data m w2 else phase2_send_rts data m1 w4)
                 = (r, m', w')"
      using run nn c nb rnd p1 by (auto simp: send_data_def split: if_splits)
    then have br: "x < mac_p m \<Longrightarrow> phase2_send_rts data m w2 = (r, m', w')"
      "\<not> x < mac_p m \<Longrightarrow> phase2_send_rts data m1 w4 = (r, m', w')"
      by simp_all
    have f1: "mac_w m1 = mac_w m" "mac_stats m1 = mac_stats m"
      by (simp_all add: m1_def)
    show ?thesis
    proof (cases "x < mac_p m")
      case True
      with br(1) s2 show ?thesis by blast
    next
      case False
      with br(2) s4' f1 show ?thesis by blast
    qed
  qed
  then obtain ma wa where p2: "phase2_send_rts data ma wa = (r, m', w')"
    and sa: "silent w wa" and ma: "mac_w ma = mac_w m" "mac_stats ma = mac_stats m"
    by blast
  have qa: "no_rx_done wa"
    using q sa no_rx_done_same_env by (auto simp: silent_def)
  have Wa: "0 \<le> mac_w ma"
    using W ma by simp
  have eq: "strict_bytes wa = strict_bytes w" "tx_view (bus wa) = tx_view (bus w)"
    "tx_counts ma = tx_counts m"
    using sa ma by (simp_all add: silent_def same_env_def tx_counts_def)
  show "strict_bytes w \<and> 255 < length data \<Longrightarrow>
           r = Inl ValueError \<and> tx_view (bus w') = tx_view (bus w) \<and>
           tx_counts m' = tx_counts m \<and> phase m' = PHASE_2_RTS \<and>
           backoff_count (mac_stats m') = backoff_count (mac_stats m) + 1"
    using phase2_quiet(1) [OF qa Wa p2] eq ma by simp
  show "\<not> (strict_bytes w \<and> 255 < length data) \<Longrightarrow>
           r = Inr True \<and> backoff_count (mac_stats m') = backoff_count (mac_stats m) + 2"
    using phase2_quiet(2) [OF qa Wa p2] eq ma by simp
qed

subsection \<open>What a listen window reads, apart from what the MAC does with it\<close>

text \<open>
  The polling of lines 139-168 and 210-235 by itself: the same schedule of
  \<^verbatim>\<open>rx_done\<close>, \<^verbatim>\<open>read_packet\<close> and sleeps as \<open>listen_loop\<close>, for a window of \<open>duration\<close> ms,
  stopping at the first packet of type RTS or DATA. It returns that packet, or \<open>None\<close>
  when the window runs out, and the world at that moment. \<open>listen_loop_window\<close> below
  shows that \<open>listen_loop\<close> is this polling followed by the MAC's reaction to the packet.
\<close>

function window_frame ::
  "int \<Rightarrow> int \<Rightarrow> int \<Rightarrow> int \<Rightarrow> world \<Rightarrow> packet option \<times> world" where
  "window_frame duration start poll_interval idle_count w =
     (if ticks_diff (ticks_ms w) start < duration then
        (case rx_done w of
           (True, w1) \<Rightarrow>
             (case read_packet w1 of
                (pkt, w2) \<Rightarrow>
                  if pkt \<noteq> None \<and>
                     (pkt_type (the pkt) = PKT_TYPE_RTS \<or> pkt_type (the pkt) = PKT_TYPE_DATA)
                  then (pkt, w2)
                  else window_frame duration start 11 0 (sleep_ms 11 w2))
         | (False, w1) \<Rightarrow>
             (let idle_count1 = idle_count + 1;
                  poll_interval1 = (if idle_count1 > 3 then 23 else poll_interval);
                  poll_interval2 = (if idle_count1 > 7 then 41 else poll_interval1)
              in window_frame duration start poll_interval2 idle_count1
                   (sleep_ms poll_interval2 w1)))
      else (None, w))"
  by pat_completeness auto
termination
  apply (relation "measures [\<lambda>(duration, start, poll_interval, idle_count, w).
                             nat (duration - (clock w - start)),
                           \<lambda>(duration, start, poll_interval, idle_count, w).
                             nat (4 - idle_count)]")
    apply simp
  subgoal for duration start poll_interval idle_count w d w1 pkt w2
    using clock_rx_done [of w d w1] clock_read_packet [of w1 pkt w2]
    by (simp add: sleep_ms_def ticks_diff_def ticks_ms_def)
  subgoal for duration start poll_interval idle_count w d w1 idle_count1 poll_interval1
      poll_interval2
    using clock_rx_done [of w d w1]
    by (auto simp: sleep_ms_def ticks_diff_def ticks_ms_def max_def)
  done

declare window_frame.simps [simp del]

text \<open>
  The MAC's reaction to a packet of type RTS or DATA read in a listen window (lines
  143-156 and 213-225): count it, hand a DATA payload to the handler, enter NAV, return
  \<^verbatim>\<open>False\<close>.
\<close>

definition heard_frame ::
  "packet \<Rightarrow> LoRaMAC \<Rightarrow> world \<Rightarrow> (error + bool) \<times> LoRaMAC \<times> world" where
  "heard_frame pkt m w =
     (if pkt_type pkt = PKT_TYPE_RTS then
        (let m1 = m\<lparr>mac_stats := (mac_stats m)\<lparr>rx_rts := rx_rts (mac_stats m) + 1\<rparr>\<rparr>
         in case enter_nav_from_rts pkt m1 w of
              (Inl e, m2, w3) \<Rightarrow> (Inl e, m2, w3)
            | (Inr u, m2, w3) \<Rightarrow> (Inr False, m2, w3))
      else
        (let m1 = m\<lparr>mac_stats := (mac_stats m)\<lparr>rx_data := rx_data (mac_stats m) + 1\<rparr>\<rparr>;
             w3 = (if on_receive_callback m1
                   then w\<lparr>inbox := inbox w @ [(payload pkt, rssi pkt, snr pkt)]\<rparr>
                   else w)
         in case enter_nav_random m1 w3 of
              (Inl e, m2, w4) \<Rightarrow> (Inl e, m2, w4)
            | (Inr u, m2, w4) \<Rightarrow> (Inr False, m2, w4)))"

lemma window_frame_type:
  "window_frame duration start poll idle w = (Some pkt, w') \<Longrightarrow>
     pkt_type pkt = PKT_TYPE_RTS \<or> pkt_type pkt = PKT_TYPE_DATA"
proof (induction duration start poll idle w rule: window_frame.induct)
  case (1 duration start poll idle w)
  note run = "1.prems"
  show ?case
  proof (cases "ticks_diff (ticks_ms w) start < duration")
    case False
    then show ?thesis
      using run by (subst (asm) window_frame.simps) simp
  next
    case t: True
    obtain d w1 where rx: "rx_done w = (d, w1)"
      by (cases "rx_done w")
    show ?thesis
    proof (cases d)
      case False
      define i1 where "i1 = idle + 1"
      define p1 where "p1 = (if i1 > 3 then 23 else poll)"
      define p2 where "p2 = (if i1 > 7 then 41 else p1)"
      have rxF: "(False, w1) = rx_done w"
        using rx False by simp
      have "window_frame duration start p2 i1 (sleep_ms p2 w1) = (Some pkt, w')"
        using run t rx False
        by (subst (asm) window_frame.simps)
          (auto simp: Let_def i1_def p1_def p2_def split: if_splits)
      then show ?thesis
        using "1.IH"(2) [OF t rxF refl i1_def p1_def p2_def] by simp
    next
      case True
      obtain k w2 where rp: "read_packet w1 = (k, w2)"
        by (cases "read_packet w1")
      have rxT: "(True, w1) = rx_done w"
        using rx True by simp
      show ?thesis
      proof (cases "k \<noteq> None \<and>
                     (pkt_type (the k) = PKT_TYPE_RTS \<or> pkt_type (the k) = PKT_TYPE_DATA)")
        case h: True
        then have "k = Some pkt"
          using run t rx True rp by (subst (asm) window_frame.simps) (auto split: if_splits)
        then show ?thesis
          using h by simp
      next
        case nh: False
        then have "window_frame duration start 11 0 (sleep_ms 11 w2) = (Some pkt, w')"
          using run t rx True rp by (subst (asm) window_frame.simps) (auto split: if_splits)
        then show ?thesis
          using "1.IH"(1) [OF t rxT refl rp [symmetric] nh] by simp
      qed
    qed
  qed
qed

text \<open>\<open>listen_loop\<close> is the polling, then the reaction.\<close>

lemma listen_loop_window:
  "listen_loop start poll idle m w =
     (case window_frame (phase1_duration m) start poll idle w of
        (None, w') \<Rightarrow> (None, m, w')
      | (Some pkt, w') \<Rightarrow>
          (case heard_frame pkt m w' of (r, m2, w2) \<Rightarrow> (Some r, m2, w2)))"
proof (induction "phase1_duration m" start poll idle w rule: window_frame.induct)
  case (1 start poll idle w)
  show ?case
  proof (cases "ticks_diff (ticks_ms w) start < phase1_duration m")
    case False
    then show ?thesis
      by (subst listen_loop.simps, subst window_frame.simps) simp
  next
    case t: True
    obtain d w1 where rx: "rx_done w = (d, w1)"
      by (cases "rx_done w")
    show ?thesis
    proof (cases d)
      case False
      define i1 where "i1 = idle + 1"
      define p1 where "p1 = (if i1 > 3 then 23 else poll)"
      define p2 where "p2 = (if i1 > 7 then 41 else p1)"
      have rxF: "(False, w1) = rx_done w"
        using rx False by simp
      have l: "listen_loop start poll idle m w = listen_loop start p2 i1 m (sleep_ms p2 w1)"
        using t rx False by (subst listen_loop.simps) (simp add: Let_def i1_def p1_def p2_def)
      have r: "window_frame (phase1_duration m) start poll idle w
                 = window_frame (phase1_duration m) start p2 i1 (sleep_ms p2 w1)"
        using t rx False by (subst window_frame.simps) (simp add: Let_def i1_def p1_def p2_def)
      show ?thesis
        unfolding l r using "1.hyps"(2) [OF t rxF refl i1_def p1_def p2_def] .
    next
      case True
      obtain k w2 where rp: "read_packet w1 = (k, w2)"
        by (cases "read_packet w1")
      have rxT: "(True, w1) = rx_done w"
        using rx True by simp
      show ?thesis
      proof (cases "k \<noteq> None \<and>
                     (pkt_type (the k) = PKT_TYPE_RTS \<or> pkt_type (the k) = PKT_TYPE_DATA)")
        case h: True
        then obtain pkt where k: "k = Some pkt"
          by auto
        have r: "window_frame (phase1_duration m) start poll idle w = (Some pkt, w2)"
          using t rx True rp h k by (subst window_frame.simps) simp
        have nd: "PKT_TYPE_RTS \<noteq> PKT_TYPE_DATA"
          by (simp add: PKT_TYPE_RTS_def PKT_TYPE_DATA_def)
        have l: "listen_loop start poll idle m w =
                   (case heard_frame pkt m w2 of (r, m2, w3) \<Rightarrow> (Some r, m2, w3))"
          using t rx True rp h k nd
          by (subst listen_loop.simps)
            (auto simp: heard_frame_def Let_def split: prod.splits sum.splits)
        show ?thesis
          unfolding l r by simp
      next
        case nh: False
        have l: "listen_loop start poll idle m w = listen_loop start 11 0 m (sleep_ms 11 w2)"
          using t rx True rp nh by (subst listen_loop.simps) auto
        have r: "window_frame (phase1_duration m) start poll idle w
                   = window_frame (phase1_duration m) start 11 0 (sleep_ms 11 w2)"
          using t rx True rp nh by (subst window_frame.simps) auto
        show ?thesis
          unfolding l r using "1.hyps"(1) [OF t rxT refl rp [symmetric] nh] .
      qed
    qed
  qed
qed

text \<open>
  Phase 2 up to the start of its listen window (lines 182-206): the backoff, the RTS,
  \<^verbatim>\<open>tx_rts += 1\<close>, \<^verbatim>\<open>start_rx\<close>. \<open>phase2_split\<close> below shows that
  \<open>phase2_send_rts\<close> is this, then the listen window, then Phase 3.
\<close>

definition phase2_announce ::
  "byte list \<Rightarrow> LoRaMAC \<Rightarrow> world \<Rightarrow> (error + unit) \<times> LoRaMAC \<times> world" where
  "phase2_announce pending_data m w =
     (let m1 = m\<lparr>phase := PHASE_2_RTS\<rparr>
      in case randint 0 (mac_w m1) w of
           (Inl e, w1) \<Rightarrow> (Inl e, m1, w1)
         | (Inr r, w1) \<Rightarrow>
             (let backoff = r * difs m1
              in case prime_offset w1 of
                   (Inl e, w2) \<Rightarrow> (Inl e, m1, w2)
                 | (Inr po, w2) \<Rightarrow>
                     (let backoff1 = backoff + po;
                          w3 = sleep_ms backoff1 w2;
                          m2 = m1\<lparr>mac_stats := (mac_stats m1)
                                  \<lparr>backoff_count := backoff_count (mac_stats m1) + 1\<rparr>\<rparr>;
                          data_len = int (length pending_data)
                      in case rts_bytes (strict_bytes w3) data_len of
                           Inl e \<Rightarrow> (Inl e, m2, w3)
                         | Inr rts_packet \<Rightarrow>
                             (case send_packet rts_packet PKT_TYPE_RTS w3 of
                                (sent, w4) \<Rightarrow>
                                  (let m3 = m2\<lparr>mac_stats := (mac_stats m2)
                                               \<lparr>tx_rts := tx_rts (mac_stats m2) + 1\<rparr>\<rparr>;
                                       w5 = start_rx (phase1_duration m3) w4
                                   in (Inr (), m3, w5))))))"

lemma phase2_split:
  "phase2_send_rts data m w =
     (case phase2_announce data m w of
        (Inl e, m3, w5) \<Rightarrow> (Inl e, m3, w5)
      | (Inr u, m3, w5) \<Rightarrow>
          (case listen_loop (ticks_ms w5) 11 0 m3 w5 of
             (Some r, m4, w6) \<Rightarrow> (r, m4, w6)
           | (None, m4, w6) \<Rightarrow> phase3_send_data data m4 w6))"
  unfolding phase2_send_rts_def phase2_announce_def Let_def
  by (simp split: prod.splits sum.splits)

lemma phase2_announce_effect:
  assumes ann: "phase2_announce data m w = (Inr u, m3, w5)"
  shows "tx_view (bus w5) = tx_view (bus w) @ emission PKT_TYPE_RTS (rts_payload data)"
    and "mac_stats m3 = (mac_stats m)\<lparr>backoff_count := backoff_count (mac_stats m) + 1,
                                       tx_rts := tx_rts (mac_stats m) + 1\<rparr>"
    and "mac_w m3 = mac_w m" and "difs m3 = difs m"
    and "phase1_duration m3 = phase1_duration m"
    and "consecutive_navs m3 = consecutive_navs m"
proof -
  define m1 where "m1 = m\<lparr>phase := PHASE_2_RTS\<rparr>"
  obtain r1 w1 where a1: "randint 0 (mac_w m1) w = (r1, w1)"
    by (cases "randint 0 (mac_w m1) w")
  from ann a1 obtain slots where r1: "r1 = Inr slots"
    by (cases r1) (auto simp: phase2_announce_def Let_def m1_def)
  obtain r2 w2 where a2: "prime_offset w1 = (r2, w2)"
    by (cases "prime_offset w1")
  from ann a1 r1 a2 obtain po where r2: "r2 = Inr po"
    by (cases r2) (auto simp: phase2_announce_def Let_def m1_def)
  define w3 where "w3 = sleep_ms (slots * difs m1 + po) w2"
  define m2 where "m2 = m1\<lparr>mac_stats := (mac_stats m1)
                              \<lparr>backoff_count := backoff_count (mac_stats m1) + 1\<rparr>\<rparr>"
  have s3: "silent w w3"
    using silent_randint [OF a1] silent_prime_offset [OF a2] silent_sleep_ms [of w2]
    unfolding w3_def by (blast intro: silent_trans)
  from ann a1 r1 a2 r2 obtain rts_packet where
    rb: "rts_bytes (strict_bytes w3) (int (length data)) = Inr rts_packet"
    by (cases "rts_bytes (strict_bytes w3) (int (length data))")
      (auto simp: phase2_announce_def Let_def m1_def w3_def)
  then have rp: "rts_packet = rts_payload data"
    by (rule rts_bytes_Inr)
  obtain sent w4 where a3: "send_packet (rts_payload data) PKT_TYPE_RTS w3 = (sent, w4)"
    by (cases "send_packet (rts_payload data) PKT_TYPE_RTS w3")
  have res: "m3 = m2\<lparr>mac_stats := (mac_stats m2)\<lparr>tx_rts := tx_rts (mac_stats m2) + 1\<rparr>\<rparr>"
    "w5 = start_rx (phase1_duration m3) w4"
    using ann a1 r1 a2 r2 rb rp a3
    by (auto simp: phase2_announce_def Let_def m1_def m2_def w3_def)
  have "tx_view (bus w4) = tx_view (bus w) @ emission PKT_TYPE_RTS (rts_payload data)"
    using s3 tx_send_packet [OF a3] by (simp add: silent_def)
  then show "tx_view (bus w5) = tx_view (bus w) @ emission PKT_TYPE_RTS (rts_payload data)"
    using silent_start_rx [of w4 "phase1_duration m3"] res(2) by (simp add: silent_def)
  show "mac_stats m3 = (mac_stats m)\<lparr>backoff_count := backoff_count (mac_stats m) + 1,
                                       tx_rts := tx_rts (mac_stats m) + 1\<rparr>"
    and "mac_w m3 = mac_w m" and "difs m3 = difs m"
    and "phase1_duration m3 = phase1_duration m"
    and "consecutive_navs m3 = consecutive_navs m"
    by (simp_all add: res(1) m2_def m1_def)
qed

lemma pkt_types_differ: "PKT_TYPE_DATA \<noteq> PKT_TYPE_RTS"
  by (simp add: PKT_TYPE_RTS_def PKT_TYPE_DATA_def)

lemma enter_nav_random_ok: "\<exists>m' w'. enter_nav_random m w = (Inr (), m', w')"
proof -
  have "py_int (real_of_int (calculate_toa 255) * 0.8)
          \<le> py_int (real_of_int (calculate_toa 255) * 1.2)"
    by (simp add: calculate_toa_def py_int_def)
  from randint_ok [OF this, of w] obtain n w1 where
    a1: "randint (py_int (real_of_int (calculate_toa 255) * 0.8))
           (py_int (real_of_int (calculate_toa 255) * 1.2)) w = (Inr n, w1)"
    by blast
  obtain po w2 where a2: "prime_offset w1 = (Inr po, w2)"
    using prime_offset_ok [of w1] by blast
  show ?thesis
    using a1 a2 by (simp add: enter_nav_random_def Let_def)
qed

lemma py_int_mono: "x \<le> y \<Longrightarrow> py_int x \<le> py_int y"
  unfolding py_int_def
  by (auto intro: floor_mono ceiling_mono order_trans [OF ceiling_le_zero [THEN iffD2]]) 

lemma enter_nav_from_rts_ok:
  assumes len: "5 \<le> length (payload pkt)"
    and cfg: "0 \<le> mac_w m" "0 \<le> difs m" "0 \<le> phase1_duration m"
  shows "\<exists>m' w'. enter_nav_from_rts pkt m w = (Inr (), m', w')"
proof -
  obtain L where l: "rts_data_len (payload pkt) = Inr L"
    using len by (simp add: rts_data_len_def py_index_def)
  have L: "0 \<le> L"
    using rts_data_len_nonneg [OF l] by simp
  obtain po w1 where a1: "prime_offset w = (Inr po, w1)"
    using prime_offset_ok [of w] by blast
  note po = prime_offset_range [OF a1]
  define n1 where "n1 = phase1_duration m + (mac_w m * difs m) + calculate_toa L + po"
  have "0 \<le> mac_w m * difs m"
    using cfg by simp
  then have n1: "0 \<le> n1"
    using cfg(3) L po by (simp add: n1_def calculate_toa_def)
  then have "real_of_int n1 * 0.05 \<le> real_of_int n1 * 0.15"
    by simp
  then have "py_int (real_of_int n1 * 0.05) \<le> py_int (real_of_int n1 * 0.15)"
    by (rule py_int_mono)
  from randint_ok [OF this, of w1] obtain j w2 where
    a2: "randint (py_int (real_of_int n1 * 0.05)) (py_int (real_of_int n1 * 0.15)) w1
           = (Inr j, w2)"
    by blast
  show ?thesis
    using l a1 a2 by (simp add: enter_nav_from_rts_def Let_def n1_def)
qed

lemma enter_nav_from_rts_short:
  "length (payload pkt) < 5 \<Longrightarrow> enter_nav_from_rts pkt m w = (Inl IndexError, m, w)"
  by (simp add: enter_nav_from_rts_def rts_data_len_def py_index_def)

text \<open>What the reaction to a heard frame comes to, by the kind of the frame.\<close>

lemma heard_frame_data:
  assumes ty: "pkt_type pkt = PKT_TYPE_DATA" and run: "heard_frame pkt m w = (r, m', w')"
  shows "r = Inr False \<and>
         rx_data (mac_stats m') = rx_data (mac_stats m) + 1 \<and>
         rx_rts (mac_stats m') = rx_rts (mac_stats m) \<and>
         nav_count (mac_stats m') = nav_count (mac_stats m) + 1"
proof -
  define m1 where "m1 = m\<lparr>mac_stats := (mac_stats m)\<lparr>rx_data := rx_data (mac_stats m) + 1\<rparr>\<rparr>"
  define w3 where "w3 = (if on_receive_callback m1
                   then w\<lparr>inbox := inbox w @ [(payload pkt, rssi pkt, snr pkt)]\<rparr>
                   else w)"
  obtain m2 w4 where en: "enter_nav_random m1 w3 = (Inr (), m2, w4)"
    using enter_nav_random_ok [of m1 w3] by blast
  have res: "r = Inr False" "m' = m2"
    using run ty en pkt_types_differ
    by (simp_all add: heard_frame_def Let_def m1_def w3_def)
  from enter_nav_random_effect(3) [OF en] obtain t where
    "m2 = m1\<lparr>consecutive_navs := consecutive_navs m1 + 1, nav_until := t,
             phase := PHASE_NAV,
             mac_stats := (mac_stats m1)\<lparr>nav_count := nav_count (mac_stats m1) + 1\<rparr>\<rparr>"
    by (auto simp: nav_entered_def)
  then show ?thesis
    using res by (simp add: m1_def)
qed

lemma heard_frame_rts:
  assumes ty: "pkt_type pkt = PKT_TYPE_RTS" and len: "5 \<le> length (payload pkt)"
    and cfg: "0 \<le> mac_w m" "0 \<le> difs m" "0 \<le> phase1_duration m"
    and run: "heard_frame pkt m w = (r, m', w')"
  shows "r = Inr False \<and>
         rx_rts (mac_stats m') = rx_rts (mac_stats m) + 1 \<and>
         rx_data (mac_stats m') = rx_data (mac_stats m) \<and>
         nav_count (mac_stats m') = nav_count (mac_stats m) + 1"
proof -
  define m1 where "m1 = m\<lparr>mac_stats := (mac_stats m)\<lparr>rx_rts := rx_rts (mac_stats m) + 1\<rparr>\<rparr>"
  have "0 \<le> mac_w m1" "0 \<le> difs m1" "0 \<le> phase1_duration m1"
    using cfg by (simp_all add: m1_def)
  from enter_nav_from_rts_ok [OF len this, of w]
  obtain m2 w4 where en: "enter_nav_from_rts pkt m1 w = (Inr (), m2, w4)"
    by blast
  have res: "r = Inr False" "m' = m2"
    using run ty en by (simp_all add: heard_frame_def Let_def m1_def)
  from enter_nav_from_rts_effect(3) [OF en] obtain t where
    "m2 = m1\<lparr>consecutive_navs := consecutive_navs m1 + 1, nav_until := t,
             phase := PHASE_NAV,
             mac_stats := (mac_stats m1)\<lparr>nav_count := nav_count (mac_stats m1) + 1\<rparr>\<rparr>"
    by (auto simp: nav_entered_def)
  then show ?thesis
    using res by (simp add: m1_def)
qed

text \<open>
  A frame read in the listen window of Phase 2 ends the call with the reaction to it:
  after the RTS, before any DATA.
\<close>

lemma phase2_heard:
  assumes ann: "phase2_announce data m w = (Inr u, m3, w5)"
    and obs: "window_frame (phase1_duration m3) (ticks_ms w5) 11 0 w5 = (Some pkt, w6)"
  shows "phase2_send_rts data m w = heard_frame pkt m3 w6"
  using ann obs by (simp add: phase2_split listen_loop_window split: prod.splits)


text \<open>
  A call that answers \<^verbatim>\<open>False\<close> has handed no DATA frame to the transmitter: nothing at
  all, or its RTS alone.
\<close>

lemma send_data_deferred_tx:
  assumes run: "send_data data priority m w = (Inr False, m', w')"
  shows "tx_data (mac_stats m') = tx_data (mac_stats m) \<and>
         (tx_view (bus w') = tx_view (bus w) \<or>
          tx_view (bus w') = tx_view (bus w) @ emission PKT_TYPE_RTS (rts_payload data))"
proof (cases "in_nav m w")
  case True
  then show ?thesis
    using run by (simp add: send_data_def)
next
  case nn: False
  obtain busy w1 where c: "(if use_cad (config m) then cad w else (False, w)) = (busy, w1)"
    by (cases "if use_cad (config m) then cad w else (False, w)")
  have s1: "silent w w1"
    using c by (auto split: if_splits dest: silent_cad)
  show ?thesis
  proof (cases busy)
    case True
    define m1 where "m1 = m\<lparr>mac_stats := (mac_stats m)
                         \<lparr>cad_detected := cad_detected (mac_stats m) + 1\<rparr>\<rparr>"
    obtain r2 m2 w2 where d: "defer_random m1 w1 = (r2, m2, w2)"
      by (cases "defer_random m1 w1")
    have res: "\<not> isl r2" "m' = m2" "w' = w2"
      using run nn c True d by (auto simp: send_data_def Let_def m1_def split: sum.splits)
    note de = defer_random_effect [OF d]
    have "silent w w'"
      using s1 de(1) res(3) by (blast intro: silent_trans)
    moreover from de(3) [OF res(1)] obtain t where
      "m2 = m1\<lparr>consecutive_navs := consecutive_navs m1 + 1, nav_until := t,
               phase := PHASE_NAV\<rparr>"
      by blast
    then have "tx_data (mac_stats m') = tx_data (mac_stats m)"
      using res(2) by (simp add: m1_def)
    ultimately show ?thesis
      by (simp add: silent_def)
  next
    case nb: False
    obtain x w2 where rnd: "random w1 = (x, w2)"
      by (cases "random w1")
    have s2: "silent w w2"
      using s1 silent_random [OF rnd] by (rule silent_trans)
    have "\<exists>wa. silent w wa \<and>
            (phase2_send_rts data m wa = (Inr False, m', w') \<or>
             phase1_listen_rts data m wa = (Inr False, m', w'))"
    proof (cases "priority = ''high''")
      case True
      then have "phase2_send_rts data m w1 = (Inr False, m', w')"
        using run nn c nb by (simp add: send_data_def)
      then show ?thesis
        using s1 by blast
    next
      case False
      then have "(if x < mac_p m then phase2_send_rts data m w2
                  else phase1_listen_rts data m w2) = (Inr False, m', w')"
        using run nn c nb rnd by (simp add: send_data_def)
      then show ?thesis
        using s2 by (cases "x < mac_p m") auto
    qed
    then obtain wa where sa: "silent w wa"
      and br: "phase2_send_rts data m wa = (Inr False, m', w') \<or>
               phase1_listen_rts data m wa = (Inr False, m', w')"
      by blast
    have "rts_then_heard data m wa m' w' \<or>
          (tx_view (bus w') = tx_view (bus wa) \<and> heard (m\<lparr>phase := PHASE_1_LISTEN\<rparr>) m')"
      using br phase2_effect(3) phase1_effect(3) by blast
    then show ?thesis
    proof
      assume "rts_then_heard data m wa m' w'"
      then show ?thesis
        using sa by (simp add: rts_then_heard_def silent_def tx_counts_def)
    next
      assume h: "tx_view (bus w') = tx_view (bus wa) \<and> heard (m\<lparr>phase := PHASE_1_LISTEN\<rparr>) m'"
      then have "tx_counts m' = tx_counts (m\<lparr>phase := PHASE_1_LISTEN\<rparr>)"
        using heard_fields(1) by blast
      then show ?thesis
        using h sa by (simp add: silent_def tx_counts_def)
    qed
  qed
qed

text \<open>
  The way of \<^verbatim>\<open>send_data\<close> to \<^verbatim>\<open>_phase2_send_rts\<close> (lines 97-119 and 131-172): the MAC
  object and the world with which Phase 2 is called, directly or after a Phase 1 window in
  which no RTS or DATA frame was read; \<open>None\<close> when the call returns without Phase 2.
  \<open>send_data_entry\<close> below shows that \<open>send_data\<close> is then that call of Phase 2, and
  \<open>send_data_no_entry\<close> that it has transmitted nothing otherwise.
\<close>

definition phase2_entry :: "string \<Rightarrow> LoRaMAC \<Rightarrow> world \<Rightarrow> (LoRaMAC \<times> world) option" where
  "phase2_entry priority m w =
     (if in_nav m w then None
      else
        (case (if use_cad (config m) then cad w else (False, w)) of
           (True, w1) \<Rightarrow> None
         | (False, w1) \<Rightarrow>
             (if priority = ''high'' then Some (m, w1)
              else
                (case random w1 of
                   (r, w2) \<Rightarrow>
                     if r < mac_p m then Some (m, w2)
                     else
                       (let m1 = m\<lparr>phase := PHASE_1_LISTEN\<rparr>;
                            w3 = start_rx (phase1_duration m1) w2
                        in case window_frame (phase1_duration m1) (ticks_ms w3) 11 0 w3 of
                             (Some pkt, w4) \<Rightarrow> None
                           | (None, w4) \<Rightarrow> Some (m1, w4))))))"

lemma send_data_entry:
  assumes ent: "phase2_entry priority m w = Some (m2, w2)"
  shows "send_data data priority m w = phase2_send_rts data m2 w2"
    and "silent w w2"
    and "m2 = m \<or> m2 = m\<lparr>phase := PHASE_1_LISTEN\<rparr>"
proof -
  have nn: "\<not> in_nav m w"
    using ent by (auto simp: phase2_entry_def)
  obtain busy w1 where c: "(if use_cad (config m) then cad w else (False, w)) = (busy, w1)"
    by (cases "if use_cad (config m) then cad w else (False, w)")
  have s1: "silent w w1"
    using c by (auto split: if_splits dest: silent_cad)
  have nb: "\<not> busy"
    using ent nn c by (auto simp: phase2_entry_def)
  obtain x wr where rnd: "random w1 = (x, wr)"
    by (cases "random w1")
  have sr: "silent w wr"
    using s1 silent_random [OF rnd] by (rule silent_trans)
  define m1 where "m1 = m\<lparr>phase := PHASE_1_LISTEN\<rparr>"
  define w3 where "w3 = start_rx (phase1_duration m1) wr"
  have s3: "silent w w3"
    using sr silent_start_rx [of wr "phase1_duration m1"] unfolding w3_def
    by (rule silent_trans)
  obtain k w4 where wf: "window_frame (phase1_duration m1) (ticks_ms w3) 11 0 w3 = (k, w4)"
    by (cases "window_frame (phase1_duration m1) (ticks_ms w3) 11 0 w3")
  consider (high) "priority = ''high''" "m2 = m" "w2 = w1"
    | (p2) "priority \<noteq> ''high''" "x < mac_p m" "m2 = m" "w2 = wr"
    | (p1) "priority \<noteq> ''high''" "\<not> x < mac_p m" "k = None" "m2 = m1" "w2 = w4"
    using ent nn c nb rnd wf
    by (auto simp: phase2_entry_def Let_def m1_def w3_def split: if_splits option.splits)
  then have "send_data data priority m w = phase2_send_rts data m2 w2 \<and> silent w w2 \<and>
             (m2 = m \<or> m2 = m\<lparr>phase := PHASE_1_LISTEN\<rparr>)"
  proof cases
    case high
    then show ?thesis
      using nn c nb s1 by (simp add: send_data_def)
  next
    case p2
    then show ?thesis
      using nn c nb rnd sr by (simp add: send_data_def)
  next
    case p1
    have ll: "listen_loop (ticks_ms w3) 11 0 m1 w3 = (None, m1, w4)"
      using wf p1(3) by (simp add: listen_loop_window)
    have "silent w3 w4"
      using listen_loop_effect [OF ll] by simp
    then have "silent w w4"
      using s3 by (blast intro: silent_trans)
    moreover have "send_data data priority m w = phase2_send_rts data m1 w4"
      using nn c nb rnd p1(1,2) ll
      by (simp add: send_data_def phase1_listen_rts_def Let_def m1_def w3_def)
    ultimately show ?thesis
      using p1 by (simp add: m1_def)
  qed
  then show "send_data data priority m w = phase2_send_rts data m2 w2"
    and "silent w w2"
    and "m2 = m \<or> m2 = m\<lparr>phase := PHASE_1_LISTEN\<rparr>"
    by simp_all
qed

lemma send_data_no_entry:
  assumes ent: "phase2_entry priority m w = None"
    and run: "send_data data priority m w = (r, m', w')"
  shows "tx_view (bus w') = tx_view (bus w)" and "tx_counts m' = tx_counts m"
    and "r \<noteq> Inr True"
proof -
  have "tx_view (bus w') = tx_view (bus w) \<and> tx_counts m' = tx_counts m \<and> r \<noteq> Inr True"
  proof (cases "in_nav m w")
    case True
    then show ?thesis
      using run by (auto simp: send_data_def)
  next
    case nn: False
    obtain busy w1 where c: "(if use_cad (config m) then cad w else (False, w)) = (busy, w1)"
      by (cases "if use_cad (config m) then cad w else (False, w)")
    have s1: "silent w w1"
      using c by (auto split: if_splits dest: silent_cad)
    show ?thesis
    proof (cases busy)
      case True
      define mc where "mc = m\<lparr>mac_stats := (mac_stats m)
                           \<lparr>cad_detected := cad_detected (mac_stats m) + 1\<rparr>\<rparr>"
      obtain rd md wd where d: "defer_random mc w1 = (rd, md, wd)"
        by (cases "defer_random mc w1")
      have res: "m' = md" "w' = wd" "r \<noteq> Inr True"
        using run nn c True d by (auto simp: send_data_def Let_def mc_def split: sum.splits)
      note de = defer_random_effect [OF d]
      have "silent w w'"
        using s1 de(1) res(2) by (blast intro: silent_trans)
      moreover have "tx_counts md = tx_counts mc"
      proof (cases "isl rd")
        case True
        then show ?thesis
          using de(2) by simp
      next
        case False
        from de(3) [OF this] obtain t where
          "md = mc\<lparr>consecutive_navs := consecutive_navs mc + 1, nav_until := t,
                   phase := PHASE_NAV\<rparr>"
          by blast
        then show ?thesis
          by (simp add: tx_counts_def)
      qed
      ultimately show ?thesis
        using res by (simp add: silent_def tx_counts_def mc_def)
    next
      case nb: False
      obtain x wr where rnd: "random w1 = (x, wr)"
        by (cases "random w1")
      have sr: "silent w wr"
        using s1 silent_random [OF rnd] by (rule silent_trans)
      define m1 where "m1 = m\<lparr>phase := PHASE_1_LISTEN\<rparr>"
      define w3 where "w3 = start_rx (phase1_duration m1) wr"
      have s3: "silent w w3"
        using sr silent_start_rx [of wr "phase1_duration m1"] unfolding w3_def
        by (rule silent_trans)
      obtain k w4 where wf: "window_frame (phase1_duration m1) (ticks_ms w3) 11 0 w3 = (k, w4)"
        by (cases "window_frame (phase1_duration m1) (ticks_ms w3) 11 0 w3")
      have p1: "priority \<noteq> ''high''" "\<not> x < mac_p m" "k \<noteq> None"
        using ent nn c nb rnd wf
        by (auto simp: phase2_entry_def Let_def m1_def w3_def split: if_splits option.splits)
      then obtain pkt where k: "k = Some pkt"
        by auto
      obtain rh mh wh where hf: "heard_frame pkt m1 w4 = (rh, mh, wh)"
        by (cases "heard_frame pkt m1 w4")
      have ll: "listen_loop (ticks_ms w3) 11 0 m1 w3 = (Some rh, mh, wh)"
        using wf k hf by (simp add: listen_loop_window)
      have res: "r = rh" "m' = mh" "w' = wh"
        using run nn c nb rnd p1(1,2) ll
        by (simp_all add: send_data_def phase1_listen_rts_def Let_def m1_def w3_def)
      note le = listen_loop_effect [OF ll]
      have "silent w wh"
        using s3 le by (blast intro: silent_trans)
      moreover have "tx_counts mh = tx_counts m1 \<and> rh \<noteq> Inr True"
      proof (cases rh)
        case (Inl e)
        then show ?thesis
          using le by (simp add: listen_outcome_def)
      next
        case (Inr b)
        then have "heard m1 mh" "\<not> b"
          using le by (simp_all add: listen_outcome_def)
        then show ?thesis
          using heard_fields(1) Inr by simp
      qed
      ultimately show ?thesis
        using res by (simp add: silent_def tx_counts_def m1_def)
    qed
  qed
  then show "tx_view (bus w') = tx_view (bus w)" and "tx_counts m' = tx_counts m"
    and "r \<noteq> Inr True"
    by simp_all
qed

text \<open>
  Phase 2 with a frame read in its listen window: one RTS handed over and counted, no
  DATA, never \<^verbatim>\<open>True\<close>; \<^verbatim>\<open>False\<close> for a DATA frame and for an RTS of full length on a
  configuration without negative values.
\<close>

lemma phase2_window_heard:
  assumes ann: "phase2_announce data m w = (Inr u, m3, w5)"
    and obs: "window_frame (phase1_duration m3) (ticks_ms w5) 11 0 w5 = (Some pkt, w6)"
    and run: "phase2_send_rts data m w = (r, m', w')"
  shows "tx_view (bus w') = tx_view (bus w) @ emission PKT_TYPE_RTS (rts_payload data) \<and>
         tx_rts (mac_stats m') = tx_rts (mac_stats m) + 1 \<and>
         tx_data (mac_stats m') = tx_data (mac_stats m) \<and>
         r \<noteq> Inr True \<and>
         (pkt_type pkt = PKT_TYPE_DATA \<longrightarrow>
            r = Inr False \<and>
            rx_data (mac_stats m') = rx_data (mac_stats m) + 1 \<and>
            nav_count (mac_stats m') = nav_count (mac_stats m) + 1) \<and>
         (pkt_type pkt = PKT_TYPE_RTS \<and> 5 \<le> length (payload pkt) \<and>
          0 \<le> mac_w m \<and> 0 \<le> difs m \<and> 0 \<le> phase1_duration m \<longrightarrow>
            r = Inr False \<and>
            rx_rts (mac_stats m') = rx_rts (mac_stats m) + 1 \<and>
            nav_count (mac_stats m') = nav_count (mac_stats m) + 1)"
proof -
  note ae = phase2_announce_effect [OF ann]
  have hf: "heard_frame pkt m3 w6 = (r, m', w')"
    using phase2_heard [OF ann obs] run by simp
  then have ll: "listen_loop (ticks_ms w5) 11 0 m3 w5 = (Some r, m', w')"
    using obs by (simp add: listen_loop_window)
  note le = listen_loop_effect [OF ll]
  have tx: "tx_view (bus w') = tx_view (bus w) @ emission PKT_TYPE_RTS (rts_payload data)"
    using le ae(1) by (simp add: silent_def)
  have nt: "r \<noteq> Inr True"
    using le by (auto simp: listen_outcome_def)
  have "tx_counts m' = tx_counts m3"
  proof (cases r)
    case (Inl e)
    then show ?thesis
      using le by (simp add: listen_outcome_def)
  next
    case (Inr b)
    then have "heard m3 m'"
      using le by (simp add: listen_outcome_def)
    then show ?thesis
      by (rule heard_fields(1))
  qed
  then have cnt: "tx_rts (mac_stats m') = tx_rts (mac_stats m) + 1"
    "tx_data (mac_stats m') = tx_data (mac_stats m)"
    using ae(2) by (simp_all add: tx_counts_def)
  have dat: "pkt_type pkt = PKT_TYPE_DATA \<longrightarrow>
            r = Inr False \<and>
            rx_data (mac_stats m') = rx_data (mac_stats m) + 1 \<and>
            nav_count (mac_stats m') = nav_count (mac_stats m) + 1"
  proof
    assume ty: "pkt_type pkt = PKT_TYPE_DATA"
    from heard_frame_data [OF ty hf] ae(2)
    show "r = Inr False \<and>
            rx_data (mac_stats m') = rx_data (mac_stats m) + 1 \<and>
            nav_count (mac_stats m') = nav_count (mac_stats m) + 1"
      by simp
  qed
  have rts: "pkt_type pkt = PKT_TYPE_RTS \<and> 5 \<le> length (payload pkt) \<and>
          0 \<le> mac_w m \<and> 0 \<le> difs m \<and> 0 \<le> phase1_duration m \<longrightarrow>
            r = Inr False \<and>
            rx_rts (mac_stats m') = rx_rts (mac_stats m) + 1 \<and>
            nav_count (mac_stats m') = nav_count (mac_stats m) + 1"
  proof
    assume h: "pkt_type pkt = PKT_TYPE_RTS \<and> 5 \<le> length (payload pkt) \<and>
          0 \<le> mac_w m \<and> 0 \<le> difs m \<and> 0 \<le> phase1_duration m"
    then have ty: "pkt_type pkt = PKT_TYPE_RTS" and len: "5 \<le> length (payload pkt)"
      and cfg: "0 \<le> mac_w m3" "0 \<le> difs m3" "0 \<le> phase1_duration m3"
      using ae(3,4,5) by simp_all
    from heard_frame_rts [OF ty len cfg hf] ae(2)
    show "r = Inr False \<and>
            rx_rts (mac_stats m') = rx_rts (mac_stats m) + 1 \<and>
            nav_count (mac_stats m') = nav_count (mac_stats m) + 1"
      by simp
  qed
  from tx cnt nt dat rts show ?thesis
    by blast
qed

text \<open>
  A MAC constructed with \<^verbatim>\<open>backoff_window \<ge> 0\<close> and \<^verbatim>\<open>difs_ms \<ge> 0\<close> has \<open>W\<close>, \<open>difs\<close> and
  \<^verbatim>\<open>phase1_duration\<close> not negative; no method assigns these three after the constructor.
\<close>

lemma LoRaMAC_init_nonneg:
  "0 \<le> backoff_window cfg \<Longrightarrow> 0 \<le> difs_ms cfg \<Longrightarrow>
     0 \<le> mac_w (LoRaMAC_init cfg) \<and> 0 \<le> difs (LoRaMAC_init cfg) \<and>
     0 \<le> phase1_duration (LoRaMAC_init cfg)"
  by (simp add: LoRaMAC_init_def calculate_toa_def Let_def)

section \<open>The claims\<close>

subsection \<open>C8: the RTS payload round-trips the data length\<close>

text \<open>
  Claim C8. For every data length \<open>L\<close> in \<open>0..255\<close>, the RTS payload built by Phase 2
  (under either reading of \<^verbatim>\<open>bytearray\<close>) is \<^verbatim>\<open>CA FE BA BE L\<close>, and reading its byte at
  index 4 as an observer does gives \<open>L\<close> back.
\<close>

theorem rts_round_trip:
  "0 \<le> L \<Longrightarrow> L \<le> 255 \<Longrightarrow>
     rts_bytes strict L = Inr [0xCA, 0xFE, 0xBA, 0xBE, word_of_int L] \<and>
     rts_data_len [0xCA, 0xFE, 0xBA, 0xBE, word_of_int L] = Inr L"
proof -
  assume b: "0 \<le> L" "L \<le> 255"
  then have "take_bit 8 L = L"
    by (simp add: take_bit_int_eq_self)
  then have "uint (word_of_int L :: byte) = L"
    by (simp add: uint_word_of_int_eq)
  then show ?thesis
    using b by (simp add: rts_bytes_def bytearray_def rts_data_len_def py_index_def)
qed

theorem rts_round_trip_witness:
  "rts_bytes True 16 = Inr [0xCA, 0xFE, 0xBA, 0xBE, 0x10] \<and>
   rts_data_len [0xCA, 0xFE, 0xBA, 0xBE, 0x10] = Inr 16"
  using rts_round_trip [of 16 True] by simp

subsection \<open>C10: a send during NAV changes nothing\<close>

text \<open>
  Claim C10. When \<^verbatim>\<open>nav_until\<close> is still ahead of the clock, \<^verbatim>\<open>send_data\<close> returns
  \<^verbatim>\<open>False\<close> (Deferred) and hands back the MAC object and the world exactly as they were:
  no counter, no \<^verbatim>\<open>consecutive_navs\<close>, \<^verbatim>\<open>nav_until\<close> or \<^verbatim>\<open>phase\<close> changes, no SPI
  transaction is issued, no pin or random number is read, no time passes.
\<close>

theorem send_in_nav_is_noop:
  "nav_until m > ticks_ms w \<Longrightarrow> send_data data priority m w = (Inr False, m, w)"
  by (simp add: send_data_def in_nav_def)

theorem send_in_nav_is_noop_witness:
  "send_data [0x68, 0x69] ''normal''
     ((LoRaMAC_init (MACConfig_init no_kwargs))\<lparr>nav_until := 100\<rparr>) idle_air
   = (Inr False, (LoRaMAC_init (MACConfig_init no_kwargs))\<lparr>nav_until := 100\<rparr>, idle_air)"
  using send_in_nav_is_noop
    [of idle_air "(LoRaMAC_init (MACConfig_init no_kwargs))\<lparr>nav_until := 100\<rparr>"
        "[0x68, 0x69]" "''normal''"]
  by (simp add: ticks_ms_def idle_air_def)

subsection \<open>C6: the constructors accept any configuration\<close>

text \<open>
  Claim C6 says that a configuration with \<open>W < 0\<close>, \<open>P\<close> outside \<open>(0, 1]\<close> or
  \<open>difs_ms \<le> 0\<close> fails at construction. Neither \<^verbatim>\<open>MACConfig.__init__\<close> nor
  \<^verbatim>\<open>LoRaMAC.__init__\<close> has a test or a \<^verbatim>\<open>raise\<close>: with \<open>W = -1\<close>, \<open>P = 2\<close> and
  \<open>difs_ms = 0\<close> the MAC object exists and carries these values.
\<close>

theorem construction_counterexample:
  "mac_w (LoRaMAC_init (MACConfig_init bad_kwargs)) = - 1 \<and>
   mac_p (LoRaMAC_init (MACConfig_init bad_kwargs)) = 2 \<and>
   difs (LoRaMAC_init (MACConfig_init bad_kwargs)) = 0 \<and>
   phase1_duration (LoRaMAC_init (MACConfig_init bad_kwargs)) = 586"
  by (simp add: LoRaMAC_init_def MACConfig_init_def bad_kwargs_def no_kwargs_def kw_get_def
      calculate_toa_def)

text \<open>
  Claim C6, amended. Construction validates nothing: for any keyword arguments the MAC
  object is built, with \<open>W\<close>, \<open>P\<close> and \<open>difs_ms\<close> as given (or their defaults 7, 0.1 and
  400) and \<^verbatim>\<open>phase1_duration = W * difs_ms + 586\<close>.
\<close>

theorem construction_unchecked:
  "mac_w (LoRaMAC_init (MACConfig_init kw)) = kw_get (kw_backoff_window kw) 7 \<and>
   mac_p (LoRaMAC_init (MACConfig_init kw)) = kw_get (kw_phase2_probability kw) 0.1 \<and>
   difs (LoRaMAC_init (MACConfig_init kw)) = kw_get (kw_difs_ms kw) 400 \<and>
   phase1_duration (LoRaMAC_init (MACConfig_init kw))
     = kw_get (kw_backoff_window kw) 7 * kw_get (kw_difs_ms kw) 400 + 586"
  by (simp add: LoRaMAC_init_def MACConfig_init_def calculate_toa_def)

theorem construction_unchecked_witness:
  "mac_w (LoRaMAC_init (MACConfig_init no_kwargs)) = 7 \<and>
   mac_p (LoRaMAC_init (MACConfig_init no_kwargs)) = 0.1 \<and>
   difs (LoRaMAC_init (MACConfig_init no_kwargs)) = 400 \<and>
   phase1_duration (LoRaMAC_init (MACConfig_init no_kwargs)) = 3386"
  using construction_unchecked [of no_kwargs] by (simp add: no_kwargs_def kw_get_def)

subsection \<open>C4: the NAV armed from an RTS, and the configuration it needs\<close>

text \<open>
  Claim C4 says that whenever a node arms its NAV from an RTS announcing \<open>L\<close> bytes, the
  deadline lies at least \<^verbatim>\<open>phase1_duration + toa(L)\<close> after the arming. The NAV is built
  from \<^verbatim>\<open>phase1_duration + W * difs + toa(L)\<close>, and nothing keeps \<^verbatim>\<open>W * difs\<close> from being
  negative. With \<open>W = 1\<close> and \<open>difs_ms = -500\<close> (a listen window of 86 ms) a high-priority
  \<^verbatim>\<open>send_data\<close> sleeps 5 ms, sends its RTS, hears an RTS for 255 bytes at the first poll
  and arms \<^verbatim>\<open>nav_until = 9903\<close> at time 5: 9898 ms of NAV, where
  \<^verbatim>\<open>phase1_duration + toa(255)\<close> is 9922. The same numbers come out of
  \<^verbatim>\<open>_enter_nav_from_rts\<close> called by itself.
\<close>

theorem nav_from_rts_counterexample:
  "(case send_data [0x68, 0x69] ''high'' neg_difs_mac
           (frame_air [0x01, 0xCA, 0xFE, 0xBA, 0xBE, 0xFF]) of
      (r, m', w') \<Rightarrow>
        r = Inr False \<and> rx_rts (mac_stats m') = 1 \<and> ticks_ms w' = 5 \<and>
        nav_until m' - ticks_ms w' = 9898 \<and>
        phase1_duration m' + calculate_toa 255 = 9922) \<and>
   (case enter_nav_from_rts
           \<lparr>pkt_type = PKT_TYPE_RTS, payload = [0xCA, 0xFE, 0xBA, 0xBE, 0xFF],
            rssi = - 80, snr = 8\<rparr> neg_difs_mac idle_air of
      (r, m', w') \<Rightarrow>
        r = Inr () \<and> nav_until m' - ticks_ms w' = 9898 \<and>
        phase1_duration neg_difs_mac + calculate_toa 255 = 9922)"
  by code_simp

text \<open>
  Claim C4, amended. On a MAC whose \<open>W\<close>, \<open>difs\<close> and \<^verbatim>\<open>phase1_duration\<close> are not negative,
  whenever \<^verbatim>\<open>_enter_nav_from_rts\<close> arms the NAV from an RTS whose payload byte 4 is \<open>L\<close>,
  the deadline lies at least \<^verbatim>\<open>phase1_duration + W * difs + toa(L) + 5\<close>, hence at least
  \<^verbatim>\<open>phase1_duration + toa(L)\<close>, after the clock reading taken at arming (which is also the
  reading at entry: the function does not sleep). The prime offset, the jitter and the
  multiplier only add.
\<close>

theorem nav_from_rts_lower_bound:
  assumes run: "enter_nav_from_rts rts_packet m w = (Inr u, m', w')"
    and len: "rts_data_len (payload rts_packet) = Inr L"
    and cfg: "0 \<le> mac_w m" "0 \<le> difs m" "0 \<le> phase1_duration m"
  shows "phase1_duration m + calculate_toa L \<le> nav_until m' - ticks_ms w' \<and>
         phase1_duration m + mac_w m * difs m + calculate_toa L + 5
           \<le> nav_until m' - ticks_ms w' \<and>
         ticks_ms w' = ticks_ms w"
proof -
  define base where "base = phase1_duration m + (mac_w m * difs m) + calculate_toa L"
  have L: "0 \<le> L" using rts_data_len_nonneg [OF len] by simp
  have wd: "0 \<le> mac_w m * difs m" using cfg by simp
  have toa: "0 \<le> calculate_toa L" using L by (simp add: calculate_toa_def)
  obtain r1 w1 where p1: "prime_offset w = (r1, w1)" by (cases "prime_offset w")
  from run len p1 obtain po where r1: "r1 = Inr po"
    by (cases r1) (auto simp: enter_nav_from_rts_def Let_def)
  note po = prime_offset_range [OF p1 [unfolded r1]]
  define n1 where "n1 = base + po"
  obtain r2 w2 where p2:
    "randint (py_int (real_of_int n1 * 0.05)) (py_int (real_of_int n1 * 0.15)) w1 = (r2, w2)"
    by (cases "randint (py_int (real_of_int n1 * 0.05)) (py_int (real_of_int n1 * 0.15)) w1")
  from run len p1 r1 p2 obtain jitter where r2: "r2 = Inr jitter"
    by (cases r2) (auto simp: enter_nav_from_rts_def Let_def n1_def base_def)
  note ji = randint_range [OF p2 [unfolded r2]]
  have n1: "0 \<le> n1" using cfg(3) wd toa po by (simp add: n1_def base_def)
  then have "0 \<le> py_int (real_of_int n1 * 0.05)"
    by (intro py_int_nonneg) simp
  then have j0: "0 \<le> jitter" using ji by linarith
  have res: "nav_until m' = ticks_ms w2 + backoff_scaled (consecutive_navs m) (n1 + jitter)"
       "w' = w2"
    using run len p1 r1 p2 r2 by (auto simp: enter_nav_from_rts_def Let_def n1_def base_def)
  have "n1 + jitter \<le> backoff_scaled (consecutive_navs m) (n1 + jitter)"
    using n1 j0 by (intro backoff_scaled_ge) simp
  then have "phase1_duration m + calculate_toa L \<le> backoff_scaled (consecutive_navs m) (n1 + jitter)"
    and "phase1_duration m + mac_w m * difs m + calculate_toa L + 5
           \<le> backoff_scaled (consecutive_navs m) (n1 + jitter)"
    using wd po j0 by (simp_all add: n1_def base_def)
  moreover have "ticks_ms w2 = ticks_ms w"
    using po ji by (simp add: ticks_ms_def)
  ultimately show ?thesis
    using res by simp
qed

text \<open>
  An instance with the multiplier at work: after two deferrals the RTS for 16 bytes arms
  \<open>\<lfloor>7543 \<times> 1.6\<rfloor> = 12068\<close> ms on the default configuration.
\<close>

theorem nav_from_rts_lower_bound_witness:
  "consecutive_navs (default_mac\<lparr>consecutive_navs := 2\<rparr>) = 2 \<and>
   fst (enter_nav_from_rts heard_rts (default_mac\<lparr>consecutive_navs := 2\<rparr>) idle_air) = Inr () \<and>
   nav_until (fst (snd (enter_nav_from_rts heard_rts (default_mac\<lparr>consecutive_navs := 2\<rparr>)
                          idle_air)))
     - ticks_ms (snd (snd (enter_nav_from_rts heard_rts (default_mac\<lparr>consecutive_navs := 2\<rparr>)
                             idle_air))) = 12068 \<and>
   phase1_duration (default_mac\<lparr>consecutive_navs := 2\<rparr>) + calculate_toa 16 = 4379 \<and>
   phase1_duration (default_mac\<lparr>consecutive_navs := 2\<rparr>)
     + mac_w (default_mac\<lparr>consecutive_navs := 2\<rparr>) * difs (default_mac\<lparr>consecutive_navs := 2\<rparr>)
     + calculate_toa 16 + 5 = 7184"
proof -
  let ?m = "default_mac\<lparr>consecutive_navs := 2\<rparr>"
  have ev: "(case enter_nav_from_rts heard_rts ?m idle_air of
               (r, m', w') \<Rightarrow> r = Inr () \<and> nav_until m' - ticks_ms w' = 12068)"
    by code_simp
  then have run: "enter_nav_from_rts heard_rts ?m idle_air
      = (Inr (), fst (snd (enter_nav_from_rts heard_rts ?m idle_air)),
         snd (snd (enter_nav_from_rts heard_rts ?m idle_air)))"
    by (simp split: prod.splits)
  have len: "rts_data_len (payload heard_rts) = Inr 16"
    by (simp add: heard_rts_def rts_data_len_def py_index_def)
  have cfg: "0 \<le> mac_w ?m" "0 \<le> difs ?m" "0 \<le> phase1_duration ?m"
    and pd: "phase1_duration ?m + calculate_toa 16 = 4379"
      "phase1_duration ?m + mac_w ?m * difs ?m + calculate_toa 16 + 5 = 7184"
    by (simp_all add: default_mac_def LoRaMAC_init_def MACConfig_init_def no_kwargs_def
        kw_get_def calculate_toa_def)
  from nav_from_rts_lower_bound [OF run len cfg] ev pd show ?thesis
    by (simp split: prod.splits)
qed

subsection \<open>C2: the CAD deferral is not counted in \<^verbatim>\<open>nav_count\<close>\<close>

text \<open>
  Claim C2 says that each of the three deferral paths adds one to \<^verbatim>\<open>nav_count\<close>.
  \<^verbatim>\<open>_enter_nav_from_rts\<close> and \<^verbatim>\<open>_enter_nav_random\<close> end with
  \<^verbatim>\<open>self.stats['nav_count'] += 1\<close>; \<^verbatim>\<open>_defer_random\<close> ends without it. With the default
  configuration and a chip that reports CAD activity, \<^verbatim>\<open>send_data\<close> returns \<^verbatim>\<open>False\<close>,
  has counted the CAD hit, raised \<^verbatim>\<open>consecutive_navs\<close> and armed \<^verbatim>\<open>nav_until\<close>, and
  \<^verbatim>\<open>nav_count\<close> is still 0.
\<close>

theorem cad_deferral_not_counted:
  "(case send_data [0x78] ''normal'' default_mac cad_air of
      (r, m', w') \<Rightarrow>
        r = Inr False \<and> cad_detected (mac_stats m') = 1 \<and> consecutive_navs m' = 1 \<and>
        nav_until m' = 3391 \<and> phase m' = PHASE_NAV \<and> nav_count (mac_stats m') = 0)"
  by code_simp

subsection \<open>C3: a call that answers Sent emitted one RTS, then one DATA\<close>

text \<open>
  Claim C3. When \<^verbatim>\<open>send_data\<close> returns \<^verbatim>\<open>True\<close> (Sent), the transmit commands the call
  added to the SPI log are exactly: the RTS frame (type byte 1, \<^verbatim>\<open>CA FE BA BE\<close>, length
  byte) loaded and the transmitter started, then the DATA frame (type byte 2, the payload)
  loaded and the transmitter started. One RTS, one DATA, in that order; each was counted
  once.
\<close>

theorem sent_emits_rts_then_data:
  "send_data data priority m w = (Inr True, m', w') \<Longrightarrow>
     tx_view (bus w') = tx_view (bus w) @ emission PKT_TYPE_RTS (rts_payload data)
                          @ emission PKT_TYPE_DATA data \<and>
     tx_rts (mac_stats m') = tx_rts (mac_stats m) + 1 \<and>
     tx_data (mac_stats m') = tx_data (mac_stats m) + 1"
  using send_data_sent [of data priority m w m' w']
  by (simp add: sent_outcome_def tx_counts_def)

theorem sent_emits_rts_then_data_witness:
  "fst (send_data [0x68, 0x69] ''high'' quick_mac idle_air) = Inr True \<and>
   tx_view (bus (snd (snd (send_data [0x68, 0x69] ''high'' quick_mac idle_air))))
     = [Txn [0x0E, 0x00, 0x01, 0xCA, 0xFE, 0xBA, 0xBE, 0x02] 0, Txn [0x83, 0x00, 0x00, 0x00] 0,
        Txn [0x0E, 0x00, 0x02, 0x68, 0x69] 0, Txn [0x83, 0x00, 0x00, 0x00] 0]"
proof -
  have ev: "fst (send_data [0x68, 0x69] ''high'' quick_mac idle_air) = Inr True"
    by code_simp
  then have run: "send_data [0x68, 0x69] ''high'' quick_mac idle_air
      = (Inr True, fst (snd (send_data [0x68, 0x69] ''high'' quick_mac idle_air)),
         snd (snd (send_data [0x68, 0x69] ''high'' quick_mac idle_air)))"
    by (simp add: prod_eq_iff)
  from sent_emits_rts_then_data [OF run] ev show ?thesis
    by (simp add: idle_air_def tx_view_def emission_def rts_payload_def PKT_TYPE_RTS_def
        PKT_TYPE_DATA_def CMD_WRITE_BUFFER_def CMD_SET_TX_def)
qed

subsection \<open>C7: a call that answers Sent leaves \<^verbatim>\<open>consecutive_navs\<close> at 0\<close>

text \<open>
  Claim C7. After any \<^verbatim>\<open>send_data\<close> that returns \<^verbatim>\<open>True\<close> (Sent), \<^verbatim>\<open>consecutive_navs\<close> is
  0, whatever it was before the call.
\<close>

theorem sent_resets_consecutive_navs:
  "send_data data priority m w = (Inr True, m', w') \<Longrightarrow> consecutive_navs m' = 0"
  using send_data_sent [of data priority m w m' w']
  by (simp add: sent_outcome_def)

theorem sent_resets_consecutive_navs_witness:
  "consecutive_navs (quick_mac\<lparr>consecutive_navs := 3\<rparr>) = 3 \<and>
   fst (send_data [0x68, 0x69] ''high'' (quick_mac\<lparr>consecutive_navs := 3\<rparr>) idle_air) = Inr True \<and>
   consecutive_navs
     (fst (snd (send_data [0x68, 0x69] ''high'' (quick_mac\<lparr>consecutive_navs := 3\<rparr>) idle_air))) = 0"
proof -
  have ev: "fst (send_data [0x68, 0x69] ''high'' (quick_mac\<lparr>consecutive_navs := 3\<rparr>) idle_air)
              = Inr True"
    by code_simp
  then have run: "send_data [0x68, 0x69] ''high'' (quick_mac\<lparr>consecutive_navs := 3\<rparr>) idle_air
      = (Inr True,
         fst (snd (send_data [0x68, 0x69] ''high'' (quick_mac\<lparr>consecutive_navs := 3\<rparr>) idle_air)),
         snd (snd (send_data [0x68, 0x69] ''high'' (quick_mac\<lparr>consecutive_navs := 3\<rparr>) idle_air)))"
    by (simp add: prod_eq_iff)
  from sent_resets_consecutive_navs [OF run] ev show ?thesis
    by simp
qed

subsection \<open>C9: a frame heard in the Phase 2 window comes after the RTS\<close>

text \<open>
  Claim C9 says that every execution in which a competing RTS or a DATA packet is
  observed in the listen window of Phase 2 has sent its RTS, counted it, and returns
  Deferred. The first two hold; the return does not always follow. A frame of type RTS
  with two payload bytes, read at the first poll of that window by a high-priority call on
  the small configuration: the call has sent and counted its RTS, counts the reception,
  and \<^verbatim>\<open>rts_packet['payload'][4]\<close> raises \<^verbatim>\<open>IndexError\<close> out of \<^verbatim>\<open>send_data\<close>. A full RTS
  for 0 bytes on the configuration with \<open>W = 1\<close>, \<open>difs_ms = -585\<close>: the NAV base is \<open>-178\<close>,
  the jitter range \<open>-8..-26\<close> is empty and \<^verbatim>\<open>urandom.randint\<close> raises \<^verbatim>\<open>ValueError\<close>.
\<close>

theorem heard_in_phase2_counterexample:
  "phase2_entry ''high'' quick_mac (frame_air [0x01, 0xCA, 0xFE])
     = Some (quick_mac, frame_air [0x01, 0xCA, 0xFE]) \<and>
   (case phase2_announce [0x68, 0x69] quick_mac (frame_air [0x01, 0xCA, 0xFE]) of
      (a, m3, w5) \<Rightarrow>
        a = Inr () \<and>
        fst (window_frame (phase1_duration m3) (ticks_ms w5) 11 0 w5)
          = Some \<lparr>pkt_type = 1, payload = [0xCA, 0xFE], rssi = - 80, snr = 8\<rparr>) \<and>
   (case send_data [0x68, 0x69] ''high'' quick_mac (frame_air [0x01, 0xCA, 0xFE]) of
      (r, m', w') \<Rightarrow>
        r = Inl IndexError \<and> tx_rts (mac_stats m') = 1 \<and> rx_rts (mac_stats m') = 1 \<and>
        nav_count (mac_stats m') = 0) \<and>
   phase2_entry ''high'' neg_difs_mac2 (frame_air [0x01, 0xCA, 0xFE, 0xBA, 0xBE, 0x00])
     = Some (neg_difs_mac2, frame_air [0x01, 0xCA, 0xFE, 0xBA, 0xBE, 0x00]) \<and>
   (case phase2_announce [0x68, 0x69] neg_difs_mac2
           (frame_air [0x01, 0xCA, 0xFE, 0xBA, 0xBE, 0x00]) of
      (a, m3, w5) \<Rightarrow>
        a = Inr () \<and>
        fst (window_frame (phase1_duration m3) (ticks_ms w5) 11 0 w5)
          = Some \<lparr>pkt_type = 1, payload = [0xCA, 0xFE, 0xBA, 0xBE, 0x00], rssi = - 80,
                  snr = 8\<rparr>) \<and>
   (case send_data [0x68, 0x69] ''high'' neg_difs_mac2
           (frame_air [0x01, 0xCA, 0xFE, 0xBA, 0xBE, 0x00]) of
      (r, m', w') \<Rightarrow>
        r = Inl ValueError \<and> tx_rts (mac_stats m') = 1 \<and> rx_rts (mac_stats m') = 1 \<and>
        nav_count (mac_stats m') = 0)"
proof -
  have e: "phase2_entry ''high'' quick_mac (frame_air [0x01, 0xCA, 0xFE])
             = Some (quick_mac, frame_air [0x01, 0xCA, 0xFE])"
    "phase2_entry ''high'' neg_difs_mac2 (frame_air [0x01, 0xCA, 0xFE, 0xBA, 0xBE, 0x00])
       = Some (neg_difs_mac2, frame_air [0x01, 0xCA, 0xFE, 0xBA, 0xBE, 0x00])"
    by (simp_all add: phase2_entry_def in_nav_def ticks_ms_def quick_mac_def neg_difs_mac2_def
        LoRaMAC_init_def MACConfig_init_def quick_kwargs_def no_kwargs_def kw_get_def
        frame_air_def idle_air_def Let_def)
  have a: "(case phase2_announce [0x68, 0x69] quick_mac (frame_air [0x01, 0xCA, 0xFE]) of
      (a, m3, w5) \<Rightarrow>
        a = Inr () \<and>
        fst (window_frame (phase1_duration m3) (ticks_ms w5) 11 0 w5)
          = Some \<lparr>pkt_type = 1, payload = [0xCA, 0xFE], rssi = - 80, snr = 8\<rparr>)"
    by code_simp
  have b: "(case send_data [0x68, 0x69] ''high'' quick_mac (frame_air [0x01, 0xCA, 0xFE]) of
      (r, m', w') \<Rightarrow>
        r = Inl IndexError \<and> tx_rts (mac_stats m') = 1 \<and> rx_rts (mac_stats m') = 1 \<and>
        nav_count (mac_stats m') = 0)"
    by code_simp
  have c: "(case phase2_announce [0x68, 0x69] neg_difs_mac2
           (frame_air [0x01, 0xCA, 0xFE, 0xBA, 0xBE, 0x00]) of
      (a, m3, w5) \<Rightarrow>
        a = Inr () \<and>
        fst (window_frame (phase1_duration m3) (ticks_ms w5) 11 0 w5)
          = Some \<lparr>pkt_type = 1, payload = [0xCA, 0xFE, 0xBA, 0xBE, 0x00], rssi = - 80,
                  snr = 8\<rparr>)"
    by code_simp
  have d: "(case send_data [0x68, 0x69] ''high'' neg_difs_mac2
           (frame_air [0x01, 0xCA, 0xFE, 0xBA, 0xBE, 0x00]) of
      (r, m', w') \<Rightarrow>
        r = Inl ValueError \<and> tx_rts (mac_stats m') = 1 \<and> rx_rts (mac_stats m') = 1 \<and>
        nav_count (mac_stats m') = 0)"
    by code_simp
  from e a b c d show ?thesis
    by blast
qed

text \<open>
  Claim C9, amended. A \<^verbatim>\<open>send_data\<close> that answers \<^verbatim>\<open>False\<close> (Deferred) has handed no DATA
  frame to the transmitter and counted none: it has transmitted nothing, or its RTS
  alone; so Deferred does not promise that the radio stayed silent. In every execution in
  which the call comes to Phase 2, Phase 2 reaches its listen window and a frame of type
  RTS or DATA is read in that window, the call has handed exactly one frame to the
  transmitter, its RTS, and counted it in \<^verbatim>\<open>tx_rts\<close>; it hands over and counts no DATA
  frame, and it does not return Sent. It returns Deferred, having counted the reception
  and one NAV entry, when the frame is a DATA frame, and when it is an RTS with at least 5
  payload bytes heard by a MAC whose \<open>W\<close>, \<open>difs\<close> and \<^verbatim>\<open>phase1_duration\<close> are not negative.
\<close>

theorem heard_in_phase2:
  assumes run: "send_data data priority m w = (r, m', w')"
  shows "(r = Inr False \<longrightarrow>
            tx_data (mac_stats m') = tx_data (mac_stats m) \<and>
            (tx_view (bus w') = tx_view (bus w) \<or>
             tx_view (bus w') = tx_view (bus w) @ emission PKT_TYPE_RTS (rts_payload data))) \<and>
         (phase2_entry priority m w = Some (m2, w2) \<and>
          phase2_announce data m2 w2 = (Inr u, m3, w5) \<and>
          window_frame (phase1_duration m3) (ticks_ms w5) 11 0 w5 = (Some pkt, w6) \<longrightarrow>
            tx_view (bus w') = tx_view (bus w) @ emission PKT_TYPE_RTS (rts_payload data) \<and>
            tx_rts (mac_stats m') = tx_rts (mac_stats m) + 1 \<and>
            tx_data (mac_stats m') = tx_data (mac_stats m) \<and>
            r \<noteq> Inr True \<and>
            (pkt_type pkt = PKT_TYPE_DATA \<longrightarrow>
               r = Inr False \<and>
               rx_data (mac_stats m') = rx_data (mac_stats m) + 1 \<and>
               nav_count (mac_stats m') = nav_count (mac_stats m) + 1) \<and>
            (pkt_type pkt = PKT_TYPE_RTS \<and> 5 \<le> length (payload pkt) \<and>
             0 \<le> mac_w m \<and> 0 \<le> difs m \<and> 0 \<le> phase1_duration m \<longrightarrow>
               r = Inr False \<and>
               rx_rts (mac_stats m') = rx_rts (mac_stats m) + 1 \<and>
               nav_count (mac_stats m') = nav_count (mac_stats m) + 1))"
proof -
  have a: "r = Inr False \<longrightarrow>
            tx_data (mac_stats m') = tx_data (mac_stats m) \<and>
            (tx_view (bus w') = tx_view (bus w) \<or>
             tx_view (bus w') = tx_view (bus w) @ emission PKT_TYPE_RTS (rts_payload data))"
    using send_data_deferred_tx [of data priority m w m' w'] run by blast
  have b: "phase2_entry priority m w = Some (m2, w2) \<and>
          phase2_announce data m2 w2 = (Inr u, m3, w5) \<and>
          window_frame (phase1_duration m3) (ticks_ms w5) 11 0 w5 = (Some pkt, w6) \<longrightarrow>
            tx_view (bus w') = tx_view (bus w) @ emission PKT_TYPE_RTS (rts_payload data) \<and>
            tx_rts (mac_stats m') = tx_rts (mac_stats m) + 1 \<and>
            tx_data (mac_stats m') = tx_data (mac_stats m) \<and>
            r \<noteq> Inr True \<and>
            (pkt_type pkt = PKT_TYPE_DATA \<longrightarrow>
               r = Inr False \<and>
               rx_data (mac_stats m') = rx_data (mac_stats m) + 1 \<and>
               nav_count (mac_stats m') = nav_count (mac_stats m) + 1) \<and>
            (pkt_type pkt = PKT_TYPE_RTS \<and> 5 \<le> length (payload pkt) \<and>
             0 \<le> mac_w m \<and> 0 \<le> difs m \<and> 0 \<le> phase1_duration m \<longrightarrow>
               r = Inr False \<and>
               rx_rts (mac_stats m') = rx_rts (mac_stats m) + 1 \<and>
               nav_count (mac_stats m') = nav_count (mac_stats m) + 1)"
  proof
    assume h: "phase2_entry priority m w = Some (m2, w2) \<and>
          phase2_announce data m2 w2 = (Inr u, m3, w5) \<and>
          window_frame (phase1_duration m3) (ticks_ms w5) 11 0 w5 = (Some pkt, w6)"
    then have ent: "phase2_entry priority m w = Some (m2, w2)"
      and ann: "phase2_announce data m2 w2 = (Inr u, m3, w5)"
      and obs: "window_frame (phase1_duration m3) (ticks_ms w5) 11 0 w5 = (Some pkt, w6)"
      by simp_all
    note se = send_data_entry [OF ent]
    have run2: "phase2_send_rts data m2 w2 = (r, m', w')"
      using se(1) run by simp
    have eq: "mac_stats m2 = mac_stats m" "mac_w m2 = mac_w m" "difs m2 = difs m"
      "phase1_duration m2 = phase1_duration m"
      using se(3) by auto
    have tv: "tx_view (bus w2) = tx_view (bus w)"
      using se(2) by (simp add: silent_def)
    from phase2_window_heard [OF ann obs run2] eq tv
    show "tx_view (bus w') = tx_view (bus w) @ emission PKT_TYPE_RTS (rts_payload data) \<and>
            tx_rts (mac_stats m') = tx_rts (mac_stats m) + 1 \<and>
            tx_data (mac_stats m') = tx_data (mac_stats m) \<and>
            r \<noteq> Inr True \<and>
            (pkt_type pkt = PKT_TYPE_DATA \<longrightarrow>
               r = Inr False \<and>
               rx_data (mac_stats m') = rx_data (mac_stats m) + 1 \<and>
               nav_count (mac_stats m') = nav_count (mac_stats m) + 1) \<and>
            (pkt_type pkt = PKT_TYPE_RTS \<and> 5 \<le> length (payload pkt) \<and>
             0 \<le> mac_w m \<and> 0 \<le> difs m \<and> 0 \<le> phase1_duration m \<longrightarrow>
               r = Inr False \<and>
               rx_rts (mac_stats m') = rx_rts (mac_stats m) + 1 \<and>
               nav_count (mac_stats m') = nav_count (mac_stats m) + 1)"
      by simp
  qed
  from a b show ?thesis
    by (rule conjI)
qed

text \<open>
  Two such calls on the small configuration, both with high priority: one reads an RTS
  for 16 bytes at the first poll of the Phase 2 window, the other, with a handler
  registered, a DATA frame with payload \<^verbatim>\<open>AB\<close>. Each has sent its RTS, and nothing else,
  and returns \<^verbatim>\<open>False\<close>.
\<close>

theorem heard_in_phase2_witness:
  "fst (send_data [0x68, 0x69] ''high'' quick_mac (frame_air [0x01, 0xCA, 0xFE, 0xBA, 0xBE, 0x10]))
     = Inr False \<and>
   tx_view (bus (snd (snd (send_data [0x68, 0x69] ''high'' quick_mac
                             (frame_air [0x01, 0xCA, 0xFE, 0xBA, 0xBE, 0x10])))))
     = [Txn [0x0E, 0x00, 0x01, 0xCA, 0xFE, 0xBA, 0xBE, 0x02] 0, Txn [0x83, 0x00, 0x00, 0x00] 0] \<and>
   tx_rts (mac_stats (fst (snd (send_data [0x68, 0x69] ''high'' quick_mac
                                  (frame_air [0x01, 0xCA, 0xFE, 0xBA, 0xBE, 0x10]))))) = 1 \<and>
   rx_rts (mac_stats (fst (snd (send_data [0x68, 0x69] ''high'' quick_mac
                                  (frame_air [0x01, 0xCA, 0xFE, 0xBA, 0xBE, 0x10]))))) = 1 \<and>
   fst (send_data [0x68, 0x69] ''high'' (on_receive quick_mac) (frame_air [0x02, 0x41, 0x42]))
     = Inr False \<and>
   tx_view (bus (snd (snd (send_data [0x68, 0x69] ''high'' (on_receive quick_mac)
                             (frame_air [0x02, 0x41, 0x42])))))
     = [Txn [0x0E, 0x00, 0x01, 0xCA, 0xFE, 0xBA, 0xBE, 0x02] 0, Txn [0x83, 0x00, 0x00, 0x00] 0] \<and>
   tx_data (mac_stats (fst (snd (send_data [0x68, 0x69] ''high'' (on_receive quick_mac)
                                   (frame_air [0x02, 0x41, 0x42]))))) = 0 \<and>
   rx_data (mac_stats (fst (snd (send_data [0x68, 0x69] ''high'' (on_receive quick_mac)
                                   (frame_air [0x02, 0x41, 0x42]))))) = 1"
proof -
  let ?d = "[0x68, 0x69] :: byte list"
  let ?wr = "frame_air [0x01, 0xCA, 0xFE, 0xBA, 0xBE, 0x10]"
  let ?wd = "frame_air [0x02, 0x41, 0x42]"
  let ?md = "on_receive quick_mac"
  let ?ar = "phase2_announce ?d quick_mac ?wr"
  let ?ad = "phase2_announce ?d ?md ?wd"
  let ?or = "window_frame (phase1_duration (fst (snd ?ar))) (ticks_ms (snd (snd ?ar))) 11 0
               (snd (snd ?ar))"
  let ?od = "window_frame (phase1_duration (fst (snd ?ad))) (ticks_ms (snd (snd ?ad))) 11 0
               (snd (snd ?ad))"
  let ?kr = "\<lparr>pkt_type = 1, payload = [0xCA, 0xFE, 0xBA, 0xBE, 0x10], rssi = - 80, snr = 8\<rparr>"
  let ?kd = "\<lparr>pkt_type = 2, payload = [0x41, 0x42], rssi = - 80, snr = 8\<rparr>"
  have ent: "phase2_entry ''high'' quick_mac ?wr = Some (quick_mac, ?wr)"
    "phase2_entry ''high'' ?md ?wd = Some (?md, ?wd)"
    by (simp_all add: phase2_entry_def in_nav_def ticks_ms_def on_receive_def quick_mac_def
        LoRaMAC_init_def MACConfig_init_def quick_kwargs_def no_kwargs_def kw_get_def
        frame_air_def idle_air_def Let_def)
  have "fst ?ar = Inr ()" "fst ?ad = Inr ()"
    by code_simp+
  then have ann: "?ar = (Inr (), fst (snd ?ar), snd (snd ?ar))"
    "?ad = (Inr (), fst (snd ?ad), snd (snd ?ad))"
    by (simp_all add: prod_eq_iff)
  have "fst ?or = Some ?kr" "fst ?od = Some ?kd"
    by code_simp+
  then have obs: "?or = (Some ?kr, snd ?or)" "?od = (Some ?kd, snd ?od)"
    by (simp_all add: prod_eq_iff)
  have run: "send_data ?d ''high'' mm ww
      = (fst (send_data ?d ''high'' mm ww), fst (snd (send_data ?d ''high'' mm ww)),
         snd (snd (send_data ?d ''high'' mm ww)))" for mm ww
    by simp
  have st: "tx_rts (mac_stats quick_mac) = 0" "tx_data (mac_stats quick_mac) = 0"
    "rx_rts (mac_stats quick_mac) = 0" "rx_data (mac_stats quick_mac) = 0"
    "0 \<le> mac_w quick_mac" "0 \<le> difs quick_mac" "0 \<le> phase1_duration quick_mac"
    "mac_stats ?md = mac_stats quick_mac" "bus ?wr = []" "bus ?wd = []"
    by (simp_all add: on_receive_def quick_mac_def LoRaMAC_init_def MACConfig_init_def
        quick_kwargs_def no_kwargs_def kw_get_def frame_air_def idle_air_def Let_def
        calculate_toa_def)
  have r: "fst (send_data ?d ''high'' quick_mac ?wr) = Inr False \<and>
           tx_view (bus (snd (snd (send_data ?d ''high'' quick_mac ?wr))))
             = emission PKT_TYPE_RTS (rts_payload ?d) \<and>
           tx_rts (mac_stats (fst (snd (send_data ?d ''high'' quick_mac ?wr)))) = 1 \<and>
           rx_rts (mac_stats (fst (snd (send_data ?d ''high'' quick_mac ?wr)))) = 1"
    using heard_in_phase2 [OF run [of quick_mac ?wr], THEN conjunct2, rule_format,
        OF conjI [OF ent(1) conjI [OF ann(1) obs(1)]]] st
    by (simp add: tx_view_def PKT_TYPE_RTS_def)
  have d: "fst (send_data ?d ''high'' ?md ?wd) = Inr False \<and>
           tx_view (bus (snd (snd (send_data ?d ''high'' ?md ?wd))))
             = emission PKT_TYPE_RTS (rts_payload ?d) \<and>
           tx_data (mac_stats (fst (snd (send_data ?d ''high'' ?md ?wd)))) = 0 \<and>
           rx_data (mac_stats (fst (snd (send_data ?d ''high'' ?md ?wd)))) = 1"
    using heard_in_phase2 [OF run [of ?md ?wd], THEN conjunct2, rule_format,
        OF conjI [OF ent(2) conjI [OF ann(2) obs(2)]]] st
    by (simp add: tx_view_def PKT_TYPE_DATA_def)
  from r d show ?thesis
    by (simp add: emission_def rts_payload_def PKT_TYPE_RTS_def PKT_TYPE_DATA_def
        CMD_WRITE_BUFFER_def CMD_SET_TX_def)
qed

subsection \<open>C1: a transmit timeout is not reported\<close>




subsection \<open>C5: no length check at the API boundary\<close>

text \<open>
  Claim C5 says that a payload of 256 bytes or more is rejected by \<^verbatim>\<open>send()\<close> with
  \<^verbatim>\<open>PayloadTooLarge\<close>. \<^verbatim>\<open>send_data\<close> never looks at the length; the first statement that
  does is \<^verbatim>\<open>bytearray([..., data_len])\<close> in Phase 2, after the backoff was slept and
  counted. With 256 zero bytes, high priority, on an idle channel: where \<^verbatim>\<open>bytearray\<close>
  checks its elements the call raises \<^verbatim>\<open>ValueError\<close> in Phase 2, 5 ms later, with
  \<^verbatim>\<open>backoff_count = 1\<close>; where it keeps the low eight bits the call announces length 0,
  then hands all 256 bytes to the transmitter and returns \<^verbatim>\<open>True\<close>.
\<close>

theorem payload_256_counterexample:
  "(case send_data (replicate 256 0x00) ''high'' quick_mac (idle_air\<lparr>strict_bytes := True\<rparr>) of
      (r, m', w') \<Rightarrow>
        r = Inl ValueError \<and> phase m' = PHASE_2_RTS \<and> backoff_count (mac_stats m') = 1 \<and>
        clock w' = 5 \<and> tx_view (bus w') = []) \<and>
   (case send_data (replicate 256 0x00) ''high'' quick_mac idle_air of
      (r, m', w') \<Rightarrow>
        r = Inr True \<and> tx_data (mac_stats m') = 1 \<and>
        tx_view (bus w') = emission PKT_TYPE_RTS [0xCA, 0xFE, 0xBA, 0xBE, 0x00]
                             @ emission PKT_TYPE_DATA (replicate 256 0x00))"
  by code_simp

text \<open>
  Claim C5, amended. For a \<^verbatim>\<open>send_data\<close> with a backoff window \<open>W \<ge> 0\<close> that is not in
  NAV, has no CAD hit and to which no status read shows RxDone: a payload of 255 bytes is
  sent as one RTS announcing \<^verbatim>\<open>FF\<close> and one DATA frame. A payload of 256 or more bytes
  is not rejected at the API boundary: the call runs the Phase 2 backoff and counts it
  before \<^verbatim>\<open>bytearray\<close> sees the length; there it raises \<^verbatim>\<open>ValueError\<close> in Phase 2 with
  nothing transmitted where \<^verbatim>\<open>bytearray\<close> checks its elements, and goes on to answer
  \<^verbatim>\<open>True\<close> where it does not. No \<^verbatim>\<open>PayloadTooLarge\<close> exists.
\<close>

theorem no_length_check:
  assumes "no_rx_done w" and "0 \<le> mac_w m" and "\<not> in_nav m w"
    and "use_cad (config m) \<longrightarrow> \<not> fst (cad w)"
    and "send_data data priority m w = (r, m', w')"
  shows "(length data = 255 \<longrightarrow>
            r = Inr True \<and>
            tx_view (bus w') = tx_view (bus w)
              @ emission PKT_TYPE_RTS [0xCA, 0xFE, 0xBA, 0xBE, 0xFF]
              @ emission PKT_TYPE_DATA data) \<and>
         (256 \<le> length data \<longrightarrow>
            backoff_count (mac_stats m) < backoff_count (mac_stats m') \<and>
            (strict_bytes w \<longrightarrow>
               r = Inl ValueError \<and> tx_view (bus w') = tx_view (bus w) \<and>
               phase m' = PHASE_2_RTS) \<and>
            (\<not> strict_bytes w \<longrightarrow> r = Inr True))"
proof -
  note sq = send_data_quiet [OF assms]
  have "length data = 255 \<longrightarrow>
            r = Inr True \<and>
            tx_view (bus w') = tx_view (bus w)
              @ emission PKT_TYPE_RTS [0xCA, 0xFE, 0xBA, 0xBE, 0xFF]
              @ emission PKT_TYPE_DATA data"
  proof
    assume l: "length data = 255"
    then have r: "r = Inr True"
      using sq(2) by simp
    then have "sent_outcome data m w m' w'"
      using send_data_sent assms(5) by simp
    moreover have "rts_payload data = [0xCA, 0xFE, 0xBA, 0xBE, 0xFF]"
      using l by (simp add: rts_payload_def)
    ultimately show "r = Inr True \<and>
            tx_view (bus w') = tx_view (bus w)
              @ emission PKT_TYPE_RTS [0xCA, 0xFE, 0xBA, 0xBE, 0xFF]
              @ emission PKT_TYPE_DATA data"
      using r by (simp add: sent_outcome_def)
  qed
  moreover have "256 \<le> length data \<longrightarrow>
            backoff_count (mac_stats m) < backoff_count (mac_stats m') \<and>
            (strict_bytes w \<longrightarrow>
               r = Inl ValueError \<and> tx_view (bus w') = tx_view (bus w) \<and>
               phase m' = PHASE_2_RTS) \<and>
            (\<not> strict_bytes w \<longrightarrow> r = Inr True)"
    using sq by (cases "strict_bytes w") auto
  ultimately show ?thesis
    by blast
qed

theorem no_length_check_witness:
  "fst (send_data (replicate 255 0x41) ''normal'' quick_mac idle_air) = Inr True \<and>
   tx_view (bus (snd (snd (send_data (replicate 255 0x41) ''normal'' quick_mac idle_air))))
     = emission PKT_TYPE_RTS [0xCA, 0xFE, 0xBA, 0xBE, 0xFF]
       @ emission PKT_TYPE_DATA (replicate 255 0x41) \<and>
   0 < backoff_count
         (mac_stats (fst (snd (send_data (replicate 256 0x41) ''normal'' quick_mac idle_air)))) \<and>
   fst (send_data (replicate 256 0x41) ''normal'' quick_mac idle_air) = Inr True"
proof -
  have q: "no_rx_done idle_air" "0 \<le> mac_w quick_mac" "\<not> in_nav quick_mac idle_air"
    "use_cad (config quick_mac) \<longrightarrow> \<not> fst (cad idle_air)"
    by (simp_all add: no_rx_done_def in_nav_def ticks_ms_def idle_air_def quick_mac_def
        LoRaMAC_init_def MACConfig_init_def quick_kwargs_def no_kwargs_def kw_get_def Let_def)
  have run: "send_data d ''normal'' quick_mac idle_air
      = (fst (send_data d ''normal'' quick_mac idle_air),
         fst (snd (send_data d ''normal'' quick_mac idle_air)),
         snd (snd (send_data d ''normal'' quick_mac idle_air)))" for d
    by simp
  have st: "backoff_count (mac_stats quick_mac) = 0" "bus idle_air = []"
    "\<not> strict_bytes idle_air"
    by (simp_all add: quick_mac_def LoRaMAC_init_def Let_def idle_air_def)
  from no_length_check [OF q run [of "replicate 255 0x41"]]
       no_length_check [OF q run [of "replicate 256 0x41"]] st
  show ?thesis
    by (simp add: tx_view_def)
qed

end
